theory Spec2Isabelle
  imports Complex_Main "HOL-Library.AList" "HOL-Library.Sublist" "HOL-Library.FSet"
    "HOL-Library.Multiset" "HOL-Library.Log_Nat"
begin

section \<open>The agent registry (class AgentManager)\<close>

text \<open>
  The registry is the JavaScript \<open>Map\<close> \<open>this.agents\<close>, keyed by agent name. A \<open>Map\<close>
  iterates in insertion order and \<open>set\<close> on a present key keeps the key's place, which is
  what \<open>AList.update\<close> does on an association list; \<open>get\<close> is \<open>map_of\<close>.

  Numbers: \<open>currentTasks\<close> is an integer (it starts at 0 and the source adds and
  subtracts 1, clamping with \<open>Math.max\<close>); the performance counters only ever count up
  from zero and are naturals; \<open>successRate\<close> is the quotient the source stores. The
  configured \<open>max_concurrent_tasks\<close> is whatever number the caller passes, negative and
  fractional ones included: nothing checks it, so it is a rational, and so is the
  agent's \<open>maxConcurrentTasks\<close>; an absent value is \<open>None\<close>. Timestamps
  (\<open>new Date()\<close>) are passed in as a natural number \<open>now\<close>.
  The fields \<open>id\<close> (a fresh UUID), \<open>createdAt\<close> and \<open>api_endpoint\<close> and the logger are
  left out: no operation of the registry reads them.
\<close>

datatype agent_status = Active | Inactive

record configuration =
  max_concurrent_tasks :: "rat option"
  preferred_languages :: "string list option"
  specializations :: "string list option"

record agent_data =
  ad_name :: string
  ad_type :: string
  ad_capabilities :: "string list option"
  ad_configuration :: "configuration option"

record performance =
  totalTasks :: nat
  completedTasks :: nat
  failedTasks :: nat
  averageExecutionTime :: rat
  successRate :: rat

record agent =
  name :: string
  agent_type :: string
  status :: agent_status
  capabilities :: "string list"
  configuration :: configuration
  currentTasks :: int
  maxConcurrentTasks :: rat
  lastHeartbeat :: nat
  performance :: performance

type_synonym registry = "(string \<times> agent) list"

text \<open>
  The errors the source raises are plain \<open>Error\<close> objects told apart by their message; the
  constructors carry the names the specification gives them:
  \<open>NotFound\<close> is ``Agent ... not found'', ``Task ... not found'' and
  ``Failed task ... not found'', \<open>CapacityExceeded\<close> is ``Agent ... is at maximum capacity'',
  \<open>NoAvailableAgent\<close> is ``No available agents found'', and \<open>CancellationRejected\<close> is
  ``Cannot cancel task that is currently processing''.
\<close>

datatype error = NotFound | CapacityExceeded | NoAvailableAgent | CancellationRejected

definition empty_configuration :: configuration where
  "empty_configuration =
     \<lparr>max_concurrent_tasks = None, preferred_languages = None, specializations = None\<rparr>"

text \<open>\<open>agentData.configuration?.max_concurrent_tasks || 5\<close>: absent and \<open>0\<close> are falsy.\<close>

definition configured_max :: "agent_data \<Rightarrow> rat" where
  "configured_max agentData =
     (case ad_configuration agentData of
        None \<Rightarrow> 5
      | Some c \<Rightarrow> (case max_concurrent_tasks c of
                     None \<Rightarrow> 5
                   | Some n \<Rightarrow> if n = 0 then 5 else n))"

definition registerAgent :: "nat \<Rightarrow> agent_data \<Rightarrow> registry \<Rightarrow> agent \<times> registry" where
  "registerAgent now agentData reg =
     (let agent = \<lparr>name = ad_name agentData,
                    agent_type = ad_type agentData,
                    status = Active,
                    capabilities = (case ad_capabilities agentData of None \<Rightarrow> [] | Some cs \<Rightarrow> cs),
                    configuration = (case ad_configuration agentData of
                                       None \<Rightarrow> empty_configuration | Some c \<Rightarrow> c),
                    currentTasks = 0,
                    maxConcurrentTasks = configured_max agentData,
                    lastHeartbeat = now,
                    performance = \<lparr>totalTasks = 0, completedTasks = 0, failedTasks = 0,
                                    averageExecutionTime = 0, successRate = 0\<rparr>\<rparr>
      in (agent, AList.update (name agent) agent reg))"

definition getAllAgents :: "registry \<Rightarrow> agent list" where
  "getAllAgents reg = map snd reg"

definition getAgentByName :: "registry \<Rightarrow> string \<Rightarrow> agent option" where
  "getAgentByName reg n = map_of reg n"

definition getAvailableAgents :: "registry \<Rightarrow> agent list" where
  "getAvailableAgents reg =
     filter (\<lambda>agent. status agent = Active
                 \<and> of_int (currentTasks agent) < maxConcurrentTasks agent)
       (map snd reg)"

text \<open>
  \<open>assignTaskToAgent\<close> is the specification's \<open>reserve\<close>. A \<open>throw\<close> happens before any
  write, so the registry comes back as it was together with the error. The task id is
  only logged.
\<close>

definition assignTaskToAgent :: "nat \<Rightarrow> string \<Rightarrow> registry \<Rightarrow> (error + agent) \<times> registry" where
  "assignTaskToAgent now agentName reg =
     (case map_of reg agentName of
        None \<Rightarrow> (Inl NotFound, reg)
      | Some agent \<Rightarrow>
          if of_int (currentTasks agent) \<ge> maxConcurrentTasks agent
          then (Inl CapacityExceeded, reg)
          else (let agent' = agent\<lparr>currentTasks := currentTasks agent + 1,
                                     lastHeartbeat := now\<rparr>
                in (Inr agent', AList.update agentName agent' reg)))"

text \<open>\<open>releaseTaskFromAgent\<close> is the specification's \<open>release\<close>; it never throws.\<close>

definition release_performance :: "bool \<Rightarrow> performance \<Rightarrow> performance" where
  "release_performance success perf =
     (let total = totalTasks perf + 1;
          completed = (if success then completedTasks perf + 1 else completedTasks perf);
          failed = (if success then failedTasks perf else failedTasks perf + 1)
      in perf\<lparr>totalTasks := total, completedTasks := completed, failedTasks := failed,
               successRate := of_nat completed / of_nat total\<rparr>)"

definition release_agent :: "nat \<Rightarrow> bool \<Rightarrow> agent \<Rightarrow> agent" where
  "release_agent now success agent =
     agent\<lparr>currentTasks := max 0 (currentTasks agent - 1),
           lastHeartbeat := now,
           performance := release_performance success (performance agent)\<rparr>"

definition releaseTaskFromAgent :: "nat \<Rightarrow> string \<Rightarrow> bool \<Rightarrow> registry \<Rightarrow> registry" where
  "releaseTaskFromAgent now agentName success reg =
     (case map_of reg agentName of
        None \<Rightarrow> reg
      | Some agent \<Rightarrow> AList.update agentName (release_agent now success agent) reg)"

definition updateAgentHeartbeat :: "nat \<Rightarrow> string \<Rightarrow> registry \<Rightarrow> registry" where
  "updateAgentHeartbeat now agentName reg =
     (case map_of reg agentName of
        None \<Rightarrow> reg
      | Some agent \<Rightarrow> AList.update agentName (agent\<lparr>lastHeartbeat := now\<rparr>) reg)"

text \<open>\<open>{ ...agent.configuration, ...newConfiguration }\<close>: a present field overrides.\<close>

definition merge_configuration :: "configuration \<Rightarrow> configuration \<Rightarrow> configuration" where
  "merge_configuration old new =
     \<lparr>max_concurrent_tasks =
        (case max_concurrent_tasks new of None \<Rightarrow> max_concurrent_tasks old | Some n \<Rightarrow> Some n),
      preferred_languages =
        (case preferred_languages new of None \<Rightarrow> preferred_languages old | Some l \<Rightarrow> Some l),
      specializations =
        (case specializations new of None \<Rightarrow> specializations old | Some l \<Rightarrow> Some l)\<rparr>"

definition updateAgentConfiguration ::
  "nat \<Rightarrow> string \<Rightarrow> configuration \<Rightarrow> registry \<Rightarrow> (error + configuration) \<times> registry" where
  "updateAgentConfiguration now agentName newConfiguration reg =
     (case map_of reg agentName of
        None \<Rightarrow> (Inl NotFound, reg)
      | Some agent \<Rightarrow>
          (let c = merge_configuration (configuration agent) newConfiguration
           in (Inr c, AList.update agentName (agent\<lparr>configuration := c, lastHeartbeat := now\<rparr>) reg)))"

definition deactivateAgent :: "nat \<Rightarrow> string \<Rightarrow> registry \<Rightarrow> (error + unit) \<times> registry" where
  "deactivateAgent now agentName reg =
     (case map_of reg agentName of
        None \<Rightarrow> (Inl NotFound, reg)
      | Some agent \<Rightarrow>
          (Inr (), AList.update agentName (agent\<lparr>status := Inactive, lastHeartbeat := now\<rparr>) reg))"

definition activateAgent :: "nat \<Rightarrow> string \<Rightarrow> registry \<Rightarrow> (error + unit) \<times> registry" where
  "activateAgent now agentName reg =
     (case map_of reg agentName of
        None \<Rightarrow> (Inl NotFound, reg)
      | Some agent \<Rightarrow>
          (Inr (), AList.update agentName (agent\<lparr>status := Active, lastHeartbeat := now\<rparr>) reg))"

text \<open>
  A call of one of the registry's mutating methods, and a run of such calls from a
  registry. A call that throws leaves the registry as it was and the run goes on, as a
  caller that catches the error would.
\<close>

datatype registry_call =
    Register nat agent_data
  | Reserve nat string
  | Release nat string bool
  | Heartbeat nat string
  | UpdateConfiguration nat string configuration
  | Deactivate nat string
  | Activate nat string

fun call :: "registry \<Rightarrow> registry_call \<Rightarrow> registry" where
  "call reg (Register now agentData) = snd (registerAgent now agentData reg)"
| "call reg (Reserve now n) = snd (assignTaskToAgent now n reg)"
| "call reg (Release now n success) = releaseTaskFromAgent now n success reg"
| "call reg (Heartbeat now n) = updateAgentHeartbeat now n reg"
| "call reg (UpdateConfiguration now n c) = snd (updateAgentConfiguration now n c reg)"
| "call reg (Deactivate now n) = snd (deactivateAgent now n reg)"
| "call reg (Activate now n) = snd (activateAgent now n reg)"

definition run :: "registry_call list \<Rightarrow> registry \<Rightarrow> registry" where
  "run calls reg = foldl call reg calls"

definition capacity_ok :: "agent \<Rightarrow> bool" where
  "capacity_ok a \<longleftrightarrow> 0 \<le> currentTasks a \<and> of_int (currentTasks a) \<le> maxConcurrentTasks a"

text \<open>A maximum that is a whole number and not negative, in an agent and as configured.\<close>

definition whole_max :: "agent \<Rightarrow> bool" where
  "whole_max a \<longleftrightarrow>
     0 \<le> maxConcurrentTasks a \<and> maxConcurrentTasks a = of_int \<lfloor>maxConcurrentTasks a\<rfloor>"

definition whole_configured :: "agent_data \<Rightarrow> bool" where
  "whole_configured d \<longleftrightarrow>
     (case ad_configuration d of
        None \<Rightarrow> True
      | Some c \<Rightarrow> (case max_concurrent_tasks c of
                     None \<Rightarrow> True
                   | Some n \<Rightarrow> 0 \<le> n \<and> n = of_int \<lfloor>n\<rfloor>))"

definition performance_ok :: "performance \<Rightarrow> bool" where
  "performance_ok p \<longleftrightarrow>
     successRate p = (if totalTasks p > 0 then of_nat (completedTasks p) / of_nat (totalTasks p) else 0)"

section \<open>Agent selection (selectBestAgent)\<close>

text \<open>
  Strings are lists of bytes, a character outside ASCII being its UTF-8 bytes, all of
  them above 127, so that an ASCII string occurs in the bytes exactly where it occurs in
  the characters. \<open>toLowerCase\<close> is \<open>String.prototype.toLowerCase\<close> as far as ASCII
  can tell: the ASCII capitals become their small letters, the Kelvin sign U+212A (bytes
  E2 84 AA) becomes \<open>k\<close>, the dotted capital I U+0130 (bytes C4 B0) becomes \<open>i\<close> followed
  by U+0307 (bytes CC 87); no other character has an ASCII character in its lower-case
  form, and the bytes of the others are left as they are. \<open>includes_str\<close> is
  \<open>String.prototype.includes\<close>, the test for a contiguous substring.
\<close>

definition toLowerCase_char :: "char \<Rightarrow> char" where
  "toLowerCase_char c =
     (let n = (of_char c :: nat) in if 65 \<le> n \<and> n \<le> 90 then char_of (n + 32) else c)"

function toLowerCase :: "string \<Rightarrow> string" where
  "toLowerCase [] = []"
| "toLowerCase (c # cs) =
     (if c = CHR 0xE2 \<and> take 2 cs = [CHR 0x84, CHR 0xAA]
      then CHR ''k'' # toLowerCase (drop 2 cs)
      else if c = CHR 0xC4 \<and> take 1 cs = [CHR 0xB0]
      then CHR ''i'' # CHR 0xCC # CHR 0x87 # toLowerCase (drop 1 cs)
      else toLowerCase_char c # toLowerCase cs)"
  by pat_completeness auto

termination
  by (relation "measure length") auto

fun includes_str :: "string \<Rightarrow> string \<Rightarrow> bool" where
  "includes_str [] t = (t = [])"
| "includes_str (c # cs) t = (prefix t (c # cs) \<or> includes_str cs t)"

record project_context =
  technology_stack :: "string list option"

text \<open>
  \<open>extractRequiredCapabilities\<close> pushes onto an array, one \<open>if\<close> after the other, so a
  capability can be pushed more than once. The project context is not read.
\<close>

definition extractRequiredCapabilities :: "string \<Rightarrow> string list" where
  "extractRequiredCapabilities task =
     (let taskLower = toLowerCase task;
          c1 = (if includes_str taskLower ''build'' \<or> includes_str taskLower ''compile''
                then [''code_generation'', ''testing''] else []);
          c2 = c1 @ (if includes_str taskLower ''test'' \<or> includes_str taskLower ''testing''
                then [''testing''] else []);
          c3 = c2 @ (if includes_str taskLower ''deploy'' \<or> includes_str taskLower ''deployment''
                then [''deployment''] else []);
          c4 = c3 @ (if includes_str taskLower ''debug'' \<or> includes_str taskLower ''fix''
                then [''debugging''] else []);
          c5 = c4 @ (if includes_str taskLower ''refactor'' \<or> includes_str taskLower ''optimize''
                then [''refactoring''] else []);
          c6 = c5 @ (if includes_str taskLower ''document'' \<or> includes_str taskLower ''readme''
                then [''documentation''] else []);
          c7 = c6 @ (if includes_str taskLower ''architecture'' \<or> includes_str taskLower ''design''
                then [''architecture_design''] else []);
          c8 = c7 @ (if includes_str taskLower ''review'' \<or> includes_str taskLower ''analyze''
                then [''code_review'', ''analysis''] else [])
      in if length c8 = 0 then [''code_generation'', ''problem_solving''] else c8)"

definition determineTaskType :: "string \<Rightarrow> string" where
  "determineTaskType task =
     (let taskLower = toLowerCase task in
      if includes_str taskLower ''web'' \<or> includes_str taskLower ''frontend''
         \<or> includes_str taskLower ''react'' \<or> includes_str taskLower ''vue''
      then ''web_development''
      else if includes_str taskLower ''api'' \<or> includes_str taskLower ''backend''
         \<or> includes_str taskLower ''server''
      then ''api_development''
      else if includes_str taskLower ''microservice'' \<or> includes_str taskLower ''service''
      then ''microservices''
      else if includes_str taskLower ''mobile'' \<or> includes_str taskLower ''app''
      then ''mobile_development''
      else if includes_str taskLower ''data'' \<or> includes_str taskLower ''ml'' \<or> includes_str taskLower ''ai''
      then ''data_science''
      else ''general_development'')"

text \<open>
  JavaScript numbers are IEEE 754 doubles. A finite double is a rational; the result of
  an operation is the exact result rounded to the nearest double, a tie going to the one
  with the even significand: \<open>to_double\<close>. A double is a whole multiple of
  \<open>2 powi e\<close> with \<open>e\<close> its binary exponent less 52, and never less than -1074
  (the subnormal numbers). Overflow to an infinity and division by zero are left out:
  the divisors below are the length of an array that is never empty, a maximum with 1,
  and \<open>maxConcurrentTasks\<close>, which is not 0 in any agent that \<open>registerAgent\<close> has
  stored, and the values stay far below the largest double.
\<close>

definition round_even :: "rat \<Rightarrow> int" where
  "round_even z =
     (let f = \<lfloor>z\<rfloor>; r = z - of_int f in
      if r < 1 / 2 then f
      else if 1 / 2 < r then f + 1
      else if even f then f else f + 1)"

text \<open>The binary exponent of a positive rational \<open>x\<close>: \<open>2 powi e \<le> x < 2 powi (e + 1)\<close>.\<close>

definition exponent :: "rat \<Rightarrow> int" where
  "exponent x =
     (let k = bitlen (fst (quotient_of x)) - bitlen (snd (quotient_of x))
      in if 2 powi k \<le> x then k else k - 1)"

definition to_double :: "rat \<Rightarrow> rat" where
  "to_double x =
     (if x = 0 then 0
      else (let e = max (exponent \<bar>x\<bar> - 52) (- 1074)
            in sgn x * of_int (round_even (\<bar>x\<bar> / 2 powi e)) * 2 powi e))"

definition Number_add :: "rat \<Rightarrow> rat \<Rightarrow> rat" where
  "Number_add x y = to_double (x + y)"

definition Number_subtract :: "rat \<Rightarrow> rat \<Rightarrow> rat" where
  "Number_subtract x y = to_double (x - y)"

definition Number_multiply :: "rat \<Rightarrow> rat \<Rightarrow> rat" where
  "Number_multiply x y = to_double (x * y)"

definition Number_divide :: "rat \<Rightarrow> rat \<Rightarrow> rat" where
  "Number_divide x y = to_double (x / y)"

text \<open>
  The score of one agent, as the callback of \<open>availableAgents.map\<close> computes it, one
  \<open>score += ...\<close> after the other. The registry keeps \<open>successRate\<close> as the exact quotient
  of the two counters; the number the code holds is that quotient as a double. The
  counters, the lengths and the whole constants are doubles as they stand.
  \<open>x?.includes(y)\<close> on an absent list is \<open>undefined\<close>, which counts as false.
\<close>

definition includes_opt :: "string list option \<Rightarrow> string \<Rightarrow> bool" where
  "includes_opt l x = (case l of None \<Rightarrow> False | Some xs \<Rightarrow> x \<in> set xs)"

definition score :: "string \<Rightarrow> project_context \<Rightarrow> agent \<Rightarrow> rat" where
  "score task projectContext agent =
     (let score0 = 0;
          score1 = Number_add score0
                     (Number_multiply (to_double (successRate (performance agent))) 100);
          requiredCapabilities = extractRequiredCapabilities task;
          matchingCapabilities =
            filter (\<lambda>cap. cap \<in> set (capabilities agent)) requiredCapabilities;
          score2 = Number_add score1
                     (Number_multiply
                        (Number_divide (of_nat (length matchingCapabilities))
                                       (of_nat (length requiredCapabilities))) 50);
          preferredLanguages =
            (case technology_stack projectContext of None \<Rightarrow> [] | Some l \<Rightarrow> l);
          matchingLanguages =
            filter (includes_opt (preferred_languages (configuration agent))) preferredLanguages;
          score3 = Number_add score2
                     (Number_multiply
                        (Number_divide (of_nat (length matchingLanguages))
                                       (of_nat (max (length preferredLanguages) 1))) 30);
          taskType = determineTaskType task;
          score4 = (if includes_opt (specializations (configuration agent)) taskType
                    then Number_add score3 20 else score3);
          loadRatio = Number_divide (of_int (currentTasks agent)) (maxConcurrentTasks agent)
      in Number_subtract score4 (Number_multiply loadRatio 20))"

text \<open>
  \<open>Array.prototype.sort\<close> with a compare function is a stable sort: an element goes in
  front of the first one it does not compare greater than, and elements that compare
  equal keep their order.
\<close>

fun insort_by :: "('a \<Rightarrow> 'a \<Rightarrow> 'b::{ord,zero}) \<Rightarrow> 'a \<Rightarrow> 'a list \<Rightarrow> 'a list" where
  "insort_by cmp x [] = [x]"
| "insort_by cmp x (y # ys) = (if cmp x y \<le> 0 then x # y # ys else y # insort_by cmp x ys)"

definition sort_by :: "('a \<Rightarrow> 'a \<Rightarrow> 'b::{ord,zero}) \<Rightarrow> 'a list \<Rightarrow> 'a list" where
  "sort_by cmp xs = foldr (insort_by cmp) xs []"

definition selectBestAgent :: "registry \<Rightarrow> string \<Rightarrow> project_context \<Rightarrow> error + agent" where
  "selectBestAgent reg task projectContext =
     (let availableAgents = getAvailableAgents reg in
      if length availableAgents = 0 then Inl NoAvailableAgent
      else (let scoredAgents =
                  map (\<lambda>agent. (agent, score task projectContext agent)) availableAgents
            in case sort_by (\<lambda>a b. Number_subtract (snd b) (snd a)) scoredAgents of
                 [] \<Rightarrow> Inl NoAvailableAgent
               | best # _ \<Rightarrow> Inr (fst best)))"

text \<open>
  The rule table of the specification and the capability set it describes: the union of
  the capabilities of the rows one of whose triggers occurs in the lower-cased
  description, and the default pair when no row matches.
\<close>

definition spec_capability_rules :: "(string list \<times> string list) list" where
  "spec_capability_rules =
     [([''build'', ''compile''], [''code_generation'', ''testing'']),
      ([''test''], [''testing'']),
      ([''deploy''], [''deployment'']),
      ([''debug'', ''fix''], [''debugging'']),
      ([''refactor'', ''optimize''], [''refactoring'']),
      ([''document'', ''readme''], [''documentation'']),
      ([''architecture'', ''design''], [''architecture_design'']),
      ([''review'', ''analyze''], [''code_review'', ''analysis''])]"

definition spec_rule_matches :: "string \<Rightarrow> string list \<times> string list \<Rightarrow> bool" where
  "spec_rule_matches description r \<longleftrightarrow> (\<exists>t \<in> set (fst r). sublist t (toLowerCase description))"

definition spec_required_capabilities :: "string \<Rightarrow> string set" where
  "spec_required_capabilities description =
     (let rows = filter (spec_rule_matches description) spec_capability_rules
      in if rows = [] then {''code_generation'', ''problem_solving''}
         else \<Union> (set (map (\<lambda>r. set (snd r)) rows)))"

text \<open>The capabilities of the matching rows, row after row, before any default.\<close>

definition pushed :: "string \<Rightarrow> string list" where
  "pushed task = concat (map (\<lambda>r. if spec_rule_matches task r then snd r else []) spec_capability_rules)"

text \<open>
  The classification table of the specification, the first matching row winning, and the
  score as the specification writes it: a sum of exact quotients, the capability term
  over the required capability set. \<open>exact_score\<close> is the same sum over the arrays of
  the code: the capability term counts the entries of the required-capability array, a
  repeated entry each time.
\<close>

definition spec_domain_rules :: "(string list \<times> string) list" where
  "spec_domain_rules =
     [([''web'', ''frontend'', ''react'', ''vue''], ''web_development''),
      ([''api'', ''backend'', ''server''], ''api_development''),
      ([''microservice'', ''service''], ''microservices''),
      ([''mobile'', ''app''], ''mobile_development''),
      ([''data'', ''ml'', ''ai''], ''data_science'')]"

definition spec_task_domain :: "string \<Rightarrow> string" where
  "spec_task_domain description =
     (case filter (\<lambda>r. \<exists>t \<in> set (fst r). sublist t (toLowerCase description)) spec_domain_rules of
        [] \<Rightarrow> ''general_development''
      | r # _ \<Rightarrow> snd r)"

definition spec_score :: "string \<Rightarrow> project_context \<Rightarrow> agent \<Rightarrow> rat" where
  "spec_score task projectContext agent =
     (let required = spec_required_capabilities task;
          matching = required \<inter> set (capabilities agent);
          stack = (case technology_stack projectContext of None \<Rightarrow> [] | Some l \<Rightarrow> l);
          languages = filter (includes_opt (preferred_languages (configuration agent))) stack
      in successRate (performance agent) * 100
         + of_nat (card matching) / of_nat (card required) * 50
         + of_nat (length languages) / of_nat (max 1 (length stack)) * 30
         + (if includes_opt (specializations (configuration agent)) (spec_task_domain task)
            then 20 else 0)
         - of_int (currentTasks agent) / maxConcurrentTasks agent * 20)"

definition exact_score :: "string \<Rightarrow> project_context \<Rightarrow> agent \<Rightarrow> rat" where
  "exact_score task projectContext agent =
     (let required = extractRequiredCapabilities task;
          matching = filter (\<lambda>cap. cap \<in> set (capabilities agent)) required;
          stack = (case technology_stack projectContext of None \<Rightarrow> [] | Some l \<Rightarrow> l);
          languages = filter (includes_opt (preferred_languages (configuration agent))) stack
      in successRate (performance agent) * 100
         + of_nat (length matching) / of_nat (length required) * 50
         + of_nat (length languages) / of_nat (max (length stack) 1) * 30
         + (if includes_opt (specializations (configuration agent)) (spec_task_domain task)
            then 20 else 0)
         - of_int (currentTasks agent) / maxConcurrentTasks agent * 20)"

section \<open>Task execution (OrchestrationService.executeTaskWithAgent)\<close>

text \<open>
  The task executor and the database are collaborators: the executor returns a result or
  throws, and each database call returns or throws (\<open>Some\<close> message). An error is its
  message. The outcome records, besides the value returned or thrown and the registry,
  the calls that went through, in order.
\<close>

datatype db_status = InProgress | TaskCompleted | TaskFailed

datatype effect =
    StatusUpdated db_status nat
  | Released string bool
  | Logged string

record 'r environment =
  executor :: "agent \<Rightarrow> string + 'r"
  updateTaskStatus_throws :: "db_status \<Rightarrow> string option"
  logTaskExecution_throws :: "string \<Rightarrow> string option"

type_synonym 'r outcome = "(string + 'r) \<times> registry \<times> effect list"

text \<open>The body of the \<open>try\<close> block.\<close>

definition execute_try :: "'r environment \<Rightarrow> nat \<Rightarrow> agent \<Rightarrow> registry \<Rightarrow> 'r outcome" where
  "execute_try env now agent reg =
     (case executor env agent of
        Inl e \<Rightarrow> (Inl e, reg, [])
      | Inr result \<Rightarrow>
          (case updateTaskStatus_throws env TaskCompleted of
             Some e \<Rightarrow> (Inl e, reg, [])
           | None \<Rightarrow>
               (let reg1 = releaseTaskFromAgent now (name agent) True reg;
                    effects = [StatusUpdated TaskCompleted 100, Released (name agent) True]
                in case logTaskExecution_throws env ''task_completed'' of
                     Some e \<Rightarrow> (Inl e, reg1, effects)
                   | None \<Rightarrow> (Inr result, reg1, effects @ [Logged ''task_completed'']))))"

text \<open>The \<open>catch\<close> block, entered with the error and the state the \<open>try\<close> block left.\<close>

definition execute_catch ::
  "'r environment \<Rightarrow> nat \<Rightarrow> agent \<Rightarrow> string \<Rightarrow> registry \<Rightarrow> effect list \<Rightarrow> 'r outcome" where
  "execute_catch env now agent e reg effects =
     (case updateTaskStatus_throws env TaskFailed of
        Some e' \<Rightarrow> (Inl e', reg, effects)
      | None \<Rightarrow>
          (let reg1 = releaseTaskFromAgent now (name agent) False reg;
               effects1 = effects @ [StatusUpdated TaskFailed 0, Released (name agent) False]
           in case logTaskExecution_throws env ''task_failed'' of
                Some e' \<Rightarrow> (Inl e', reg1, effects1)
              | None \<Rightarrow> (Inl e, reg1, effects1 @ [Logged ''task_failed''])))"

definition executeTaskWithAgent :: "'r environment \<Rightarrow> nat \<Rightarrow> agent \<Rightarrow> registry \<Rightarrow> 'r outcome" where
  "executeTaskWithAgent env now agent reg =
     (case execute_try env now agent reg of
        (Inr result, reg', effects) \<Rightarrow> (Inr result, reg', effects)
      | (Inl e, reg', effects) \<Rightarrow> execute_catch env now agent e reg' effects)"

definition releases :: "effect list \<Rightarrow> (string \<times> bool) list" where
  "releases effects = concat (map (\<lambda>x. case x of Released n b \<Rightarrow> [(n, b)] | _ \<Rightarrow> []) effects)"

section \<open>The task queue (class TaskQueue)\<close>

text \<open>
  The priority of a task is a string: \<open>addTask\<close> keeps whatever non-empty string the
  caller gives, and \<open>priorityOrder\<close> knows four of them. The \<open>processing\<close> set
  holds task ids; \<open>completed\<close> and \<open>failed\<close> are maps from task id. The fields of a task
  the queue does not read (description, result) are left out, and the caller's task data
  is its type and, optionally, its priority. The flag \<open>isRunning\<close> only guards the loop.
  Task objects are held by value: in the source a task object is in one collection at a
  time, moved from the queue to the pending \<open>processTask\<close> call and on to \<open>completed\<close> or
  \<open>failed\<close>.
\<close>

datatype task_state = Queued | Processing | Completed | Failed | Cancelled

record task =
  task_id :: string
  task_type :: string
  priority :: string
  task_status :: task_state
  retryCount :: "nat option"
  error :: "string option"
  createdAt :: nat
  startedAt :: "nat option"
  completedAt :: "nat option"
  failedAt :: "nat option"

record task_data =
  td_type :: string
  td_priority :: "string option"

record task_queue =
  queue :: "task list"
  processing :: "string fset"
  completed :: "string \<rightharpoonup> task"
  failed :: "string \<rightharpoonup> task \<times> string"
  isRunning :: bool

definition new_task_queue :: task_queue where
  "new_task_queue =
     \<lparr>queue = [], processing = {||}, completed = Map.empty, failed = Map.empty, isRunning = False\<rparr>"

text \<open>
  \<open>addTask\<close>; the fresh UUID is a parameter. \<open>taskData.priority || 'medium'\<close>: an absent
  priority and the empty string are falsy.
\<close>

definition addTask :: "nat \<Rightarrow> string \<Rightarrow> task_data \<Rightarrow> task_queue \<Rightarrow> task \<times> task_queue" where
  "addTask now uuid taskData s =
     (let task = \<lparr>task_id = uuid, task_type = td_type taskData,
                   priority = (case td_priority taskData of
                                 None \<Rightarrow> ''medium''
                               | Some p \<Rightarrow> if p = [] then ''medium'' else p),
                   task_status = Queued, retryCount = None, error = None, createdAt = now,
                   startedAt = None, completedAt = None, failedAt = None\<rparr>
      in (task, s\<lparr>queue := queue s @ [task]\<rparr>))"

text \<open>
  \<open>priorityOrder[p]\<close> is a number for four strings and \<open>undefined\<close> (or, for a name such as
  \<open>constructor\<close>, an object) for every other; the difference the compare function
  returns is then \<open>NaN\<close>, here \<open>None\<close>.
\<close>

definition priorityOrder :: "string \<Rightarrow> int option" where
  "priorityOrder p =
     (if p = ''urgent'' then Some 4
      else if p = ''high'' then Some 3
      else if p = ''medium'' then Some 2
      else if p = ''low'' then Some 1
      else None)"

definition compare_priority :: "task \<Rightarrow> task \<Rightarrow> int option" where
  "compare_priority a b =
     (case (priorityOrder (priority b), priorityOrder (priority a)) of
        (Some x, Some y) \<Rightarrow> Some (x - y)
      | _ \<Rightarrow> None)"

text \<open>
  \<open>Array.prototype.sort\<close> reads a \<open>NaN\<close> from the compare function as \<open>+0\<close>. When the
  compare function is a consistent comparison function for the elements, which requires
  that it returns no \<open>NaN\<close> for any two of them, the result is the stable sort. Otherwise
  ECMAScript leaves the order to the implementation: the array holds the same elements
  in some order. Here the compare function is consistent exactly when every task in the
  queue has one of the four priorities.
\<close>

definition sort_compare :: "task \<Rightarrow> task \<Rightarrow> int" where
  "sort_compare a b = (case compare_priority a b of Some v \<Rightarrow> v | None \<Rightarrow> 0)"

definition sort_queue :: "task list \<Rightarrow> task list" where
  "sort_queue q = sort_by sort_compare q"

definition ranked :: "task \<Rightarrow> bool" where
  "ranked t \<longleftrightarrow> priorityOrder (priority t) \<noteq> None"

definition rank :: "task \<Rightarrow> int" where
  "rank t = (case priorityOrder (priority t) of Some r \<Rightarrow> r | None \<Rightarrow> 0)"

definition sort_results :: "task list \<Rightarrow> task list set" where
  "sort_results q =
     (if list_all ranked q then {sort_queue q} else {q'. mset q' = mset q})"

text \<open>
  One pass of the \<open>while (this.isRunning)\<close> loop of \<open>processQueue\<close>, up to the wait: the
  sort, then the single \<open>if\<close> that takes the head and starts \<open>processTask\<close> on it. The
  started task (status \<open>processing\<close>) is returned; its completion is a later event.
  \<open>dispatch\<close> is the pass from the sorted queue \<open>q\<close> on.
\<close>

definition dispatch :: "nat \<Rightarrow> task_queue \<Rightarrow> task list \<Rightarrow> task option \<times> task_queue" where
  "dispatch now s q =
     (if length q > 0 \<and> fcard (processing s) < 10 then
        (case q of
           [] \<Rightarrow> (None, s\<lparr>queue := q\<rparr>)
         | task # rest \<Rightarrow>
             (Some (task\<lparr>task_status := Processing, startedAt := Some now\<rparr>),
              s\<lparr>queue := rest, processing := finsert (task_id task) (processing s)\<rparr>))
      else (None, s\<lparr>queue := q\<rparr>))"

definition processQueue_iteration :: "nat \<Rightarrow> task_queue \<Rightarrow> (task option \<times> task_queue) set" where
  "processQueue_iteration now s = dispatch now s ` sort_results (queue s)"

text \<open>The two ways \<open>processTask\<close> ends, and the \<open>.catch\<close> handler of \<open>processQueue\<close>.\<close>

definition processTask_completed :: "nat \<Rightarrow> task \<Rightarrow> task_queue \<Rightarrow> task_queue" where
  "processTask_completed now task s =
     s\<lparr>completed := (completed s)(task_id task \<mapsto>
                       task\<lparr>task_status := Completed, completedAt := Some now\<rparr>),
       processing := processing s |-| {|task_id task|}\<rparr>"

definition processTask_failed :: "nat \<Rightarrow> task \<Rightarrow> string \<Rightarrow> task_queue \<Rightarrow> task_queue" where
  "processTask_failed now task message s =
     s\<lparr>failed := (failed s)(task_id task \<mapsto>
                    (task\<lparr>task_status := Failed, error := Some message, failedAt := Some now\<rparr>,
                     message)),
       processing := processing s |-| {|task_id task|}\<rparr>"

definition processQueue_catch :: "task \<Rightarrow> string \<Rightarrow> task_queue \<Rightarrow> task_queue" where
  "processQueue_catch task message s =
     s\<lparr>failed := (failed s)(task_id task \<mapsto> (task, message)),
       processing := processing s |-| {|task_id task|}\<rparr>"

text \<open>\<open>findIndex\<close>, with \<open>None\<close> for \<open>-1\<close>; \<open>splice(i, 1)\<close> takes the element at \<open>i\<close> out.\<close>

fun findIndex :: "('a \<Rightarrow> bool) \<Rightarrow> 'a list \<Rightarrow> nat option" where
  "findIndex P [] = None"
| "findIndex P (x # xs) = (if P x then Some 0 else map_option Suc (findIndex P xs))"

definition cancelTask :: "string \<Rightarrow> task_queue \<Rightarrow> (error + task) \<times> task_queue" where
  "cancelTask taskId s =
     (case findIndex (\<lambda>task. task_id task = taskId) (queue s) of
        Some i \<Rightarrow>
          (Inr ((queue s ! i)\<lparr>task_status := Cancelled\<rparr>),
           s\<lparr>queue := take i (queue s) @ drop (Suc i) (queue s)\<rparr>)
      | None \<Rightarrow>
          if taskId |\<in>| processing s then (Inl CancellationRejected, s)
          else (Inl NotFound, s))"

definition retryTask :: "string \<Rightarrow> task_queue \<Rightarrow> (error + task) \<times> task_queue" where
  "retryTask taskId s =
     (case failed s taskId of
        None \<Rightarrow> (Inl NotFound, s)
      | Some (failedTask, message) \<Rightarrow>
          (let task = failedTask\<lparr>task_status := Queued,
                                 retryCount := Some ((case retryCount failedTask of
                                                         None \<Rightarrow> 0 | Some n \<Rightarrow> n) + 1),
                                 error := None,
                                 failedAt := None\<rparr>
           in (Inr task, s\<lparr>failed := (failed s)(taskId := None), queue := queue s @ [task]\<rparr>)))"

text \<open>
  What can happen to a queue: the methods called from outside, a pass of the loop, and the
  ends of tasks started earlier. The task handed to an end event stands for the object
  the pending \<open>processTask\<close> call holds.
\<close>

datatype queue_event =
    AddTask nat string task_data
  | Iteration nat
  | TaskEnded nat task
  | TaskThrew nat task string
  | CatchHandler task string
  | CancelTask string
  | RetryTask string
  | ClearCompleted
  | ClearFailed

fun queue_step :: "task_queue \<Rightarrow> queue_event \<Rightarrow> task_queue set" where
  "queue_step s (AddTask now uuid taskData) = {snd (addTask now uuid taskData s)}"
| "queue_step s (Iteration now) = snd ` processQueue_iteration now s"
| "queue_step s (TaskEnded now task) = {processTask_completed now task s}"
| "queue_step s (TaskThrew now task message) = {processTask_failed now task message s}"
| "queue_step s (CatchHandler task message) = {processQueue_catch task message s}"
| "queue_step s (CancelTask taskId) = {snd (cancelTask taskId s)}"
| "queue_step s (RetryTask taskId) = {snd (retryTask taskId s)}"
| "queue_step s ClearCompleted = {s\<lparr>completed := Map.empty\<rparr>}"
| "queue_step s ClearFailed = {s\<lparr>failed := Map.empty\<rparr>}"

text \<open>The states a new queue can get into.\<close>

inductive reachable :: "task_queue \<Rightarrow> bool" where
  new_queue: "reachable new_task_queue"
| step: "reachable s \<Longrightarrow> s' \<in> queue_step s e \<Longrightarrow> reachable s'"

section \<open>The invariant of registered agents, and example inputs\<close>

text \<open>What every agent of a registry built by calls from the empty registry satisfies.\<close>

definition agent_ok :: "agent \<Rightarrow> bool" where
  "agent_ok a \<longleftrightarrow> 0 \<le> currentTasks a \<and> maxConcurrentTasks a \<noteq> 0
      \<and> (whole_max a \<longrightarrow> capacity_ok a) \<and> performance_ok (performance a)
      \<and> totalTasks (performance a) = completedTasks (performance a) + failedTasks (performance a)"

definition devin_data :: agent_data where
  "devin_data = \<lparr>ad_name = ''devin'', ad_type = ''ai_builder'',
     ad_capabilities = Some [''code_generation'', ''testing''],
     ad_configuration = Some \<lparr>max_concurrent_tasks = Some 1,
        preferred_languages = Some [''javascript''], specializations = Some [''web_development'']\<rparr>\<rparr>"

text \<open>An agent configured with a negative maximum, and one with a fractional maximum.\<close>

definition negative_data :: agent_data where
  "negative_data = \<lparr>ad_name = ''minus'', ad_type = ''ai_builder'', ad_capabilities = None,
     ad_configuration = Some \<lparr>max_concurrent_tasks = Some (- 1),
        preferred_languages = None, specializations = None\<rparr>\<rparr>"

definition fractional_data :: agent_data where
  "fractional_data = \<lparr>ad_name = ''half'', ad_type = ''ai_builder'', ad_capabilities = None,
     ad_configuration = Some \<lparr>max_concurrent_tasks = Some (5 / 2),
        preferred_languages = None, specializations = None\<rparr>\<rparr>"

definition fractional_calls :: "registry_call list" where
  "fractional_calls = [Register 0 fractional_data, Reserve 1 ''half'', Reserve 2 ''half'',
                       Reserve 3 ''half'', Reserve 4 ''half'']"

definition example_calls :: "registry_call list" where
  "example_calls = [Register 0 devin_data, Reserve 1 ''devin'', Reserve 2 ''devin'',
                    Release 3 ''devin'' True, Release 4 ''devin'' False]"

definition rate_calls :: "registry_call list" where
  "rate_calls = [Register 0 devin_data, Release 1 ''devin'' True, Release 2 ''devin'' False,
                 Release 3 ''devin'' True, Release 4 ''devin'' True]"

definition one_agent :: registry where
  "one_agent = snd (registerAgent 0 devin_data [])"

text \<open>
  Agents registered with the same capabilities and no configuration, and the calls that
  give an agent \<open>k\<close> completed and \<open>j\<close> failed tasks. \<open>three_agents\<close> holds three such
  agents with 9 of 10, 1 of 2 and 1 of 5 tasks completed, the best one registered last;
  \<open>two_alike\<close> holds two with the same history.
\<close>

definition rated_agent :: "string \<Rightarrow> nat \<Rightarrow> nat \<Rightarrow> agent" where
  "rated_agent n k j =
     \<lparr>name = n, agent_type = ''ai_assistant'', status = Active,
      capabilities = [''code_generation'', ''testing''],
      configuration = empty_configuration,
      currentTasks = 0, maxConcurrentTasks = 5, lastHeartbeat = 7,
      performance = \<lparr>totalTasks = k + j, completedTasks = k, failedTasks = j,
                      averageExecutionTime = 0, successRate = of_nat k / of_nat (k + j)\<rparr>\<rparr>"

definition rated_data :: "string \<Rightarrow> agent_data" where
  "rated_data n = \<lparr>ad_name = n, ad_type = ''ai_assistant'',
     ad_capabilities = Some [''code_generation'', ''testing''], ad_configuration = None\<rparr>"

definition history :: "string \<Rightarrow> nat \<Rightarrow> nat \<Rightarrow> registry_call list" where
  "history n k j = replicate k (Release 7 n True) @ replicate j (Release 7 n False)"

definition three_calls :: "registry_call list" where
  "three_calls =
     [Register 0 (rated_data ''b''), Register 0 (rated_data ''c''), Register 0 (rated_data ''a'')]
     @ history ''a'' 9 1 @ history ''b'' 1 1 @ history ''c'' 1 4"

definition three_agents :: registry where
  "three_agents = run three_calls []"

definition two_calls :: "registry_call list" where
  "two_calls = [Register 0 (rated_data ''x''), Register 0 (rated_data ''y'')]
     @ history ''x'' 1 1 @ history ''y'' 1 1"

definition two_alike :: registry where
  "two_alike = run two_calls []"

text \<open>
  A registry with an agent that can generate code and, registered after it and with
  one task reserved, an agent that can test. A registry with three agents of the same
  capabilities and 9 of 10, 1 of 2 and 1 of 5 tasks completed, the second of them
  specialised in web development and preferring TypeScript. A registry with an agent
  that can generate code and has completed 1 of 3 tasks and, registered after it, an
  agent that can generate code and test and has no history.
\<close>

definition skilled_data :: "string \<Rightarrow> string list \<Rightarrow> agent_data" where
  "skilled_data n cs = \<lparr>ad_name = n, ad_type = ''ai_assistant'',
     ad_capabilities = Some cs, ad_configuration = None\<rparr>"

definition skilled_agent :: "string \<Rightarrow> string list \<Rightarrow> agent" where
  "skilled_agent n cs = fst (registerAgent 0 (skilled_data n cs) [])"

definition coder :: agent where
  "coder = skilled_agent ''coder'' [''code_generation'']"

definition busy_tester :: agent where
  "busy_tester = (skilled_agent ''tester'' [''testing''])\<lparr>currentTasks := 1, lastHeartbeat := 1\<rparr>"

definition coder_tester :: registry where
  "coder_tester =
     run [Register 0 (skilled_data ''coder'' [''code_generation'']),
          Register 0 (skilled_data ''tester'' [''testing'']),
          Reserve 1 ''tester''] []"

definition web_data :: agent_data where
  "web_data = \<lparr>ad_name = ''mid'', ad_type = ''ai_assistant'',
     ad_capabilities = Some [''code_generation'', ''testing''],
     ad_configuration = Some \<lparr>max_concurrent_tasks = None,
        preferred_languages = Some [''typescript''],
        specializations = Some [''web_development'']\<rparr>\<rparr>"

definition web_agent :: agent where
  "web_agent = (rated_agent ''mid'' 1 1)
     \<lparr>configuration := \<lparr>max_concurrent_tasks = None,
        preferred_languages = Some [''typescript''],
        specializations = Some [''web_development'']\<rparr>\<rparr>"

definition web_specialist :: registry where
  "web_specialist =
     run ([Register 0 (rated_data ''high''), Register 0 web_data, Register 0 (rated_data ''low'')]
          @ history ''high'' 9 1 @ history ''mid'' 1 1 @ history ''low'' 1 4) []"

definition typescript_context :: project_context where
  "typescript_context = \<lparr>technology_stack = Some [''typescript'']\<rparr>"

definition third_agent :: agent where
  "third_agent = (rated_agent ''third'' 1 2)\<lparr>capabilities := [''code_generation'']\<rparr>"

definition full_agent :: agent where
  "full_agent = skilled_agent ''full'' [''code_generation'', ''testing'']"

definition third_full :: registry where
  "third_full =
     run ([Register 0 (skilled_data ''third'' [''code_generation'']),
           Register 0 (skilled_data ''full'' [''code_generation'', ''testing''])]
          @ history ''third'' 1 2) []"

definition no_context :: project_context where
  "no_context = \<lparr>technology_stack = None\<rparr>"

text \<open>
  A queue with three tasks added in the order medium, urgent, default priority; the same
  queue after one pass of the loop; and after the task then running has thrown.
\<close>

definition example_task :: "string \<Rightarrow> string \<Rightarrow> nat \<Rightarrow> task" where
  "example_task i p now =
     \<lparr>task_id = i, task_type = ''build'', priority = p, task_status = Queued,
      retryCount = None, error = None, createdAt = now, startedAt = None,
      completedAt = None, failedAt = None\<rparr>"

definition three_queued :: task_queue where
  "three_queued =
     snd (addTask 12 ''t3'' \<lparr>td_type = ''build'', td_priority = None\<rparr>
       (snd (addTask 11 ''t2'' \<lparr>td_type = ''build'', td_priority = Some ''urgent''\<rparr>
         (snd (addTask 10 ''t1'' \<lparr>td_type = ''build'', td_priority = Some ''medium''\<rparr>
           new_task_queue)))))"

definition one_running :: task_queue where
  "one_running = snd (dispatch 13 three_queued (sort_queue (queue three_queued)))"

definition one_failed :: task_queue where
  "one_failed =
     processTask_failed 14
       ((example_task ''t2'' ''urgent'' 11)\<lparr>task_status := Processing, startedAt := Some 13\<rparr>)
       ''boom'' one_running"

text \<open>
  An agent with two tasks reserved, a database whose log insert for \<open>task_completed\<close>
  throws, and an executor that throws with a database whose update to \<open>failed\<close> throws.
\<close>

definition cursor_data :: agent_data where
  "cursor_data = \<lparr>ad_name = ''cursor'', ad_type = ''ai_editor'',
     ad_capabilities = Some [''code_completion'', ''code_generation''],
     ad_configuration = Some \<lparr>max_concurrent_tasks = Some 5,
        preferred_languages = Some [''javascript''], specializations = None\<rparr>\<rparr>"

definition cursor :: agent where
  "cursor = fst (registerAgent 0 cursor_data [])"

definition two_reserved :: registry where
  "two_reserved = run [Register 0 cursor_data, Reserve 1 ''cursor'', Reserve 2 ''cursor''] []"

definition log_throws :: "string environment" where
  "log_throws =
     \<lparr>executor = (\<lambda>agent. Inr ''result''),
      updateTaskStatus_throws = (\<lambda>st. None),
      logTaskExecution_throws =
        (\<lambda>action. if action = ''task_completed'' then Some ''insert failed'' else None)\<rparr>"

definition update_throws :: "string environment" where
  "update_throws =
     \<lparr>executor = (\<lambda>agent. Inl ''executor failed''),
      updateTaskStatus_throws = (\<lambda>st. if st = TaskFailed then Some ''update failed'' else None),
      logTaskExecution_throws = (\<lambda>action. None)\<rparr>"

section \<open>Properties of the registry\<close>

lemmas eval_registry = run_def registerAgent_def Let_def configured_max_def assignTaskToAgent_def
  releaseTaskFromAgent_def release_agent_def release_performance_def getAllAgents_def

lemma set_update_subset: "set (AList.update k v al) \<subseteq> insert (k, v) (set al)"
  by (induction al) auto

lemma all_agents_update:
  assumes "\<forall>a \<in> set (map snd reg). P a" and "P v"
  shows "\<forall>a \<in> set (map snd (AList.update k v reg)). P a"
  using assms set_update_subset [of k v reg] by fastforce

lemma map_of_agent_in: "map_of reg k = Some a \<Longrightarrow> a \<in> set (map snd reg)"
  by (metis map_of_SomeD set_zip_rightD zip_map_fst_snd)

text \<open>One call keeps a property of all agents that each single write keeps.\<close>

lemma call_preserves:
  assumes P_upd: "\<And>a now. P a \<Longrightarrow> P (a\<lparr>lastHeartbeat := now\<rparr>)"
      and inv: "\<forall>a \<in> set (map snd reg). P a"
      and reg_ok: "\<And>now d r. P (fst (registerAgent now d r))"
      and res_ok: "\<And>a now. P a \<Longrightarrow> of_int (currentTasks a) < maxConcurrentTasks a \<Longrightarrow>
                      P (a\<lparr>currentTasks := currentTasks a + 1, lastHeartbeat := now\<rparr>)"
      and rel_ok: "\<And>a now b. P a \<Longrightarrow> P (release_agent now b a)"
      and cfg_ok: "\<And>a now c. P a \<Longrightarrow> P (a\<lparr>configuration := c, lastHeartbeat := now\<rparr>)"
      and st_ok: "\<And>a now st. P a \<Longrightarrow> P (a\<lparr>status := st, lastHeartbeat := now\<rparr>)"
  shows "\<forall>a \<in> set (map snd (call reg c)). P a"
proof -
  have upd: "\<And>k v. P v \<Longrightarrow> \<forall>a \<in> set (map snd (AList.update k v reg)). P a"
    using inv by (rule all_agents_update)
  have found: "\<And>n a. map_of reg n = Some a \<Longrightarrow> P a"
    using inv map_of_agent_in by fast
  show ?thesis
  proof (cases c)
    case (Register now d)
    have "P (fst (registerAgent now d reg))" by (rule reg_ok)
    then have "\<forall>a \<in> set (map snd (AList.update (ad_name d) (fst (registerAgent now d reg)) reg)). P a"
      by (rule upd)
    then show ?thesis using Register
      by (simp add: registerAgent_def Let_def del: set_map)
  next
    case (Reserve now n)
    show ?thesis
    proof (cases "map_of reg n")
      case None
      then show ?thesis using Reserve inv by (simp add: assignTaskToAgent_def del: set_map)
    next
      case (Some a)
      show ?thesis
      proof (cases "maxConcurrentTasks a \<le> of_int (currentTasks a)")
        case True
        then show ?thesis using Reserve Some inv by (simp add: assignTaskToAgent_def del: set_map)
      next
        case False
        then have "P (a\<lparr>currentTasks := currentTasks a + 1, lastHeartbeat := now\<rparr>)"
          using found [OF Some] res_ok by simp
        then have "\<forall>x \<in> set (map snd (AList.update n
                     (a\<lparr>currentTasks := currentTasks a + 1, lastHeartbeat := now\<rparr>) reg)). P x"
          by (rule upd)
        then show ?thesis using Reserve Some False
          by (simp add: assignTaskToAgent_def Let_def del: set_map)
      qed
    qed
  next
    case (Release now n b)
    show ?thesis
    proof (cases "map_of reg n")
      case None
      then show ?thesis using Release inv by (simp add: releaseTaskFromAgent_def del: set_map)
    next
      case (Some a)
      have "P (release_agent now b a)" using found [OF Some] by (rule rel_ok)
      then have "\<forall>x \<in> set (map snd (AList.update n (release_agent now b a) reg)). P x"
        by (rule upd)
      then show ?thesis using Release Some
        by (simp add: releaseTaskFromAgent_def del: set_map)
    qed
  next
    case (Heartbeat now n)
    show ?thesis
    proof (cases "map_of reg n")
      case None
      then show ?thesis using Heartbeat inv by (simp add: updateAgentHeartbeat_def del: set_map)
    next
      case (Some a)
      have "P (a\<lparr>lastHeartbeat := now\<rparr>)" using found [OF Some] by (rule P_upd)
      then have "\<forall>x \<in> set (map snd (AList.update n (a\<lparr>lastHeartbeat := now\<rparr>) reg)). P x"
        by (rule upd)
      then show ?thesis using Heartbeat Some
        by (simp add: updateAgentHeartbeat_def del: set_map)
    qed
  next
    case (UpdateConfiguration now n cfg)
    show ?thesis
    proof (cases "map_of reg n")
      case None
      then show ?thesis using UpdateConfiguration inv
        by (simp add: updateAgentConfiguration_def del: set_map)
    next
      case (Some a)
      let ?a' = "a\<lparr>configuration := merge_configuration (configuration a) cfg, lastHeartbeat := now\<rparr>"
      have "P ?a'" using found [OF Some] by (rule cfg_ok)
      then have "\<forall>x \<in> set (map snd (AList.update n ?a' reg)). P x"
        by (rule upd)
      then show ?thesis using UpdateConfiguration Some
        by (simp add: updateAgentConfiguration_def Let_def del: set_map)
    qed
  next
    case (Deactivate now n)
    show ?thesis
    proof (cases "map_of reg n")
      case None
      then show ?thesis using Deactivate inv by (simp add: deactivateAgent_def del: set_map)
    next
      case (Some a)
      have "P (a\<lparr>status := Inactive, lastHeartbeat := now\<rparr>)" using found [OF Some] by (rule st_ok)
      then have "\<forall>x \<in> set (map snd (AList.update n (a\<lparr>status := Inactive, lastHeartbeat := now\<rparr>) reg)). P x"
        by (rule upd)
      then show ?thesis using Deactivate Some
        by (simp add: deactivateAgent_def del: set_map)
    qed
  next
    case (Activate now n)
    show ?thesis
    proof (cases "map_of reg n")
      case None
      then show ?thesis using Activate inv by (simp add: activateAgent_def del: set_map)
    next
      case (Some a)
      have "P (a\<lparr>status := Active, lastHeartbeat := now\<rparr>)" using found [OF Some] by (rule st_ok)
      then have "\<forall>x \<in> set (map snd (AList.update n (a\<lparr>status := Active, lastHeartbeat := now\<rparr>) reg)). P x"
        by (rule upd)
      then show ?thesis using Activate Some
        by (simp add: activateAgent_def del: set_map)
    qed
  qed
qed

lemma configured_max_nonzero: "configured_max d \<noteq> 0"
  by (simp add: configured_max_def split: option.splits)

lemma whole_configured_iff:
  "whole_max (fst (registerAgent now d reg)) \<longleftrightarrow> whole_configured d"
  by (auto simp add: whole_max_def whole_configured_def registerAgent_def Let_def
        configured_max_def split: option.splits)

lemma release_performance_ok: "performance_ok (release_performance b p)"
  by (simp add: performance_ok_def release_performance_def Let_def)

lemma reserve_keeps_capacity:
  assumes "whole_max a" and "of_int (currentTasks a) < maxConcurrentTasks a"
  shows "of_int (currentTasks a + 1) \<le> maxConcurrentTasks a"
proof -
  from assms(1) have m: "maxConcurrentTasks a = of_int \<lfloor>maxConcurrentTasks a\<rfloor>"
    by (simp add: whole_max_def)
  from assms(2) have "(of_int (currentTasks a) :: rat) < of_int \<lfloor>maxConcurrentTasks a\<rfloor>"
    by (simp only: m [symmetric])
  then have "currentTasks a + 1 \<le> \<lfloor>maxConcurrentTasks a\<rfloor>"
    by simp
  then have "(of_int (currentTasks a + 1) :: rat) \<le> of_int \<lfloor>maxConcurrentTasks a\<rfloor>"
    by (simp only: of_int_le_iff)
  then show ?thesis by (simp only: m [symmetric])
qed

lemma call_agent_ok:
  assumes "\<forall>a \<in> set (map snd reg). agent_ok a"
  shows "\<forall>a \<in> set (map snd (call reg c)). agent_ok a"
proof (rule call_preserves [where P = agent_ok, OF _ assms])
  show "\<And>now d r. agent_ok (fst (registerAgent now d r))"
    by (simp add: agent_ok_def capacity_ok_def whole_max_def performance_ok_def
          registerAgent_def Let_def configured_max_nonzero)
  show "agent_ok (release_agent now b a)" if ok: "agent_ok a" for a now b
  proof -
    have "performance_ok (performance (release_agent now b a))"
      by (simp add: release_agent_def release_performance_ok)
    moreover have "totalTasks (performance (release_agent now b a))
        = completedTasks (performance (release_agent now b a))
          + failedTasks (performance (release_agent now b a))"
      using ok by (simp add: agent_ok_def release_agent_def release_performance_def Let_def)
    moreover have "0 \<le> currentTasks (release_agent now b a)"
      and "maxConcurrentTasks (release_agent now b a) \<noteq> 0"
      and "whole_max (release_agent now b a) \<longrightarrow> capacity_ok (release_agent now b a)"
      using ok by (auto simp add: agent_ok_def capacity_ok_def whole_max_def release_agent_def)
    ultimately show ?thesis by (simp add: agent_ok_def)
  qed
  show "\<And>a now. agent_ok a \<Longrightarrow> agent_ok (a\<lparr>lastHeartbeat := now\<rparr>)"
    by (simp add: agent_ok_def capacity_ok_def whole_max_def)
  show "agent_ok (a\<lparr>currentTasks := currentTasks a + 1, lastHeartbeat := now\<rparr>)"
    if ok: "agent_ok a" and below: "of_int (currentTasks a) < maxConcurrentTasks a" for a now
  proof -
    have "whole_max a \<longrightarrow> of_int (currentTasks a + 1) \<le> maxConcurrentTasks a"
      using reserve_keeps_capacity [OF _ below] by blast
    then show ?thesis using ok
      by (simp add: agent_ok_def capacity_ok_def whole_max_def)
  qed
  show "\<And>a now c. agent_ok a \<Longrightarrow> agent_ok (a\<lparr>configuration := c, lastHeartbeat := now\<rparr>)"
    by (simp add: agent_ok_def capacity_ok_def whole_max_def)
  show "\<And>a now st. agent_ok a \<Longrightarrow> agent_ok (a\<lparr>status := st, lastHeartbeat := now\<rparr>)"
    by (simp add: agent_ok_def capacity_ok_def whole_max_def)
qed

lemma run_agent_ok:
  assumes "\<forall>a \<in> set (map snd reg). agent_ok a"
  shows "\<forall>a \<in> set (map snd (run calls reg)). agent_ok a"
  using assms unfolding run_def
proof (induction calls arbitrary: reg)
  case Nil
  then show ?case by simp
next
  case (Cons c calls)
  have "\<forall>a \<in> set (map snd (call reg c)). agent_ok a"
    using Cons.prems by (rule call_agent_ok)
  then have "\<forall>a \<in> set (map snd (foldl call (call reg c) calls)). agent_ok a"
    by (rule Cons.IH)
  then show ?case by simp
qed


lemma run_from_empty_ok: "\<forall>a \<in> set (map snd (run calls [])). agent_ok a"
  by (rule run_agent_ok) simp

lemma map_of_update_same: "map_of (AList.update k v al) k = Some v"
  by (simp add: update_conv')

lemma map_of_update_other: "m \<noteq> k \<Longrightarrow> map_of (AList.update k v al) m = map_of al m"
  by (simp add: update_conv')

text \<open>
  C1, as the source has it. From registration on, through any sequence of calls of the
  registry (reserve and release among them) and after every prefix of it, every agent
  has \<open>0 \<le> currentTasks\<close>, and every agent whose maximum is a whole number that is not
  negative has \<open>currentTasks \<le> maxConcurrentTasks\<close>. The maximum of an agent is such a
  number exactly when it was registered with \<open>max_concurrent_tasks\<close> absent, zero (read
  as 5) or a positive whole number. A reserve succeeds only from below the maximum and
  adds exactly one; a release, also a second one for the same task, never leaves the
  counter below zero. (No method of the registry awaits anything, so calls of concurrent
  callers run one after the other, each as a whole.)
\<close>

theorem currentTasks_within_capacity:
  "(\<forall>k \<le> length calls. \<forall>a \<in> set (getAllAgents (run (take k calls) [])).
       0 \<le> currentTasks a
       \<and> (whole_max a \<longrightarrow> of_int (currentTasks a) \<le> maxConcurrentTasks a))
   \<and> (whole_max (fst (registerAgent now d reg)) \<longleftrightarrow> whole_configured d)
   \<and> (\<forall>a a'. map_of reg n = Some a \<and> fst (assignTaskToAgent now n reg) = Inr a' \<longrightarrow>
         of_int (currentTasks a) < maxConcurrentTasks a
         \<and> currentTasks a' = currentTasks a + 1
         \<and> maxConcurrentTasks a' = maxConcurrentTasks a)
   \<and> 0 \<le> currentTasks (release_agent now success agent)
   \<and> 0 \<le> currentTasks (release_agent now' success' (release_agent now success agent))"
proof -
  have "\<forall>a \<in> set (getAllAgents (run (take k calls) [])).
          0 \<le> currentTasks a
          \<and> (whole_max a \<longrightarrow> of_int (currentTasks a) \<le> maxConcurrentTasks a)" for k
    using run_from_empty_ok [of "take k calls"]
    by (simp add: getAllAgents_def agent_ok_def capacity_ok_def del: set_map)
  moreover have "\<forall>a a'. map_of reg n = Some a \<and> fst (assignTaskToAgent now n reg) = Inr a' \<longrightarrow>
         of_int (currentTasks a) < maxConcurrentTasks a
         \<and> currentTasks a' = currentTasks a + 1
         \<and> maxConcurrentTasks a' = maxConcurrentTasks a"
    by (auto simp add: assignTaskToAgent_def Let_def split: if_splits)
  moreover have "0 \<le> currentTasks (release_agent now success agent)"
    by (simp add: release_agent_def)
  moreover have "0 \<le> currentTasks (release_agent now' success' (release_agent now success agent))"
    by (simp add: release_agent_def)
  ultimately show ?thesis using whole_configured_iff [of now d reg] by blast
qed

theorem currentTasks_within_capacity_witness:
  "map currentTasks (getAllAgents (run (take 2 example_calls) [])) = [1]
   \<and> map currentTasks (getAllAgents (run (take 3 example_calls) [])) = [1]
   \<and> map currentTasks (getAllAgents (run (take 4 example_calls) [])) = [0]
   \<and> map currentTasks (getAllAgents (run (take 5 example_calls) [])) = [0]
   \<and> map maxConcurrentTasks (getAllAgents (run example_calls [])) = [1]
   \<and> whole_configured devin_data
   \<and> list_all whole_max (getAllAgents (run (take 3 example_calls) []))
   \<and> list_all (\<lambda>a. 0 \<le> currentTasks a \<and> of_int (currentTasks a) \<le> maxConcurrentTasks a)
         (getAllAgents (run (take 3 example_calls) []))"
  using currentTasks_within_capacity [of example_calls 0 devin_data "[]"]
  by (simp add: example_calls_def devin_data_def eval_registry whole_max_def
        whole_configured_def)

text \<open>
  C1, as stated, fails for an agent whose configured maximum is not such a number. An
  agent registered with \<open>max_concurrent_tasks = -1\<close> has \<open>currentTasks = 0\<close> above its
  maximum from the start. An agent registered with \<open>2.5\<close> is reserved three times (the
  fourth reserve is refused): \<open>currentTasks = 3\<close> is above \<open>2.5\<close>.
\<close>

theorem currentTasks_above_maximum:
  "map currentTasks (getAllAgents (run [Register 0 negative_data] [])) = [0]
   \<and> map maxConcurrentTasks (getAllAgents (run [Register 0 negative_data] [])) = [- 1]
   \<and> map currentTasks (getAllAgents (run fractional_calls [])) = [3]
   \<and> map maxConcurrentTasks (getAllAgents (run fractional_calls [])) = [5 / 2]
   \<and> \<not> list_all (\<lambda>a. of_int (currentTasks a) \<le> maxConcurrentTasks a)
         (getAllAgents (run [Register 0 negative_data] []))
   \<and> \<not> list_all (\<lambda>a. of_int (currentTasks a) \<le> maxConcurrentTasks a)
         (getAllAgents (run fractional_calls []))"
  by (simp add: negative_data_def fractional_data_def fractional_calls_def eval_registry)

text \<open>
  C2. After any sequence of calls from registration on, every agent has
  \<open>successRate = completedTasks / totalTasks\<close> when \<open>totalTasks > 0\<close> and \<open>successRate = 0\<close>
  when \<open>totalTasks = 0\<close>. A release on a registered agent adds one to \<open>totalTasks\<close> and one
  to \<open>completedTasks\<close> when the flag is true, to \<open>failedTasks\<close> when it is false, and leaves
  the other of the two as it was.
\<close>

theorem success_rate_is_ratio:
  "(\<forall>a \<in> set (getAllAgents (run calls [])).
      successRate (performance a) =
        (if totalTasks (performance a) > 0
         then of_nat (completedTasks (performance a)) / of_nat (totalTasks (performance a))
         else 0))
   \<and> (\<forall>a. map_of reg n = Some a \<longrightarrow>
         (\<exists>a'. map_of (releaseTaskFromAgent now n success reg) n = Some a'
           \<and> totalTasks (performance a') = totalTasks (performance a) + 1
           \<and> completedTasks (performance a') =
               completedTasks (performance a) + (if success then 1 else 0)
           \<and> failedTasks (performance a') =
               failedTasks (performance a) + (if success then 0 else 1)
           \<and> successRate (performance a') =
               of_nat (completedTasks (performance a')) / of_nat (totalTasks (performance a'))))"
proof -
  have "\<forall>a \<in> set (getAllAgents (run calls [])).
      successRate (performance a) =
        (if totalTasks (performance a) > 0
         then of_nat (completedTasks (performance a)) / of_nat (totalTasks (performance a))
         else 0)"
    using run_from_empty_ok [of calls]
    by (simp add: getAllAgents_def agent_ok_def performance_ok_def del: set_map)
  moreover have "\<exists>a'. map_of (releaseTaskFromAgent now n success reg) n = Some a'
           \<and> totalTasks (performance a') = totalTasks (performance a) + 1
           \<and> completedTasks (performance a') =
               completedTasks (performance a) + (if success then 1 else 0)
           \<and> failedTasks (performance a') =
               failedTasks (performance a) + (if success then 0 else 1)
           \<and> successRate (performance a') =
               of_nat (completedTasks (performance a')) / of_nat (totalTasks (performance a'))"
    if "map_of reg n = Some a" for a
    using that
    by (simp add: releaseTaskFromAgent_def map_of_update_same release_agent_def
          release_performance_def Let_def)
  ultimately show ?thesis by blast
qed

theorem success_rate_is_ratio_witness:
  "map (successRate \<circ> performance) (getAllAgents (run rate_calls [])) = [3 / 4]
   \<and> map (totalTasks \<circ> performance) (getAllAgents (run rate_calls [])) = [4]
   \<and> map (completedTasks \<circ> performance) (getAllAgents (run rate_calls [])) = [3]
   \<and> map (failedTasks \<circ> performance) (getAllAgents (run rate_calls [])) = [1]
   \<and> map (successRate \<circ> performance) (getAllAgents (run (take 1 rate_calls) [])) = [0]
   \<and> list_all (\<lambda>a. successRate (performance a) =
                  of_nat (completedTasks (performance a)) / of_nat (totalTasks (performance a)))
         (getAllAgents (run rate_calls []))"
  using success_rate_is_ratio [of rate_calls]
  by (simp add: rate_calls_def devin_data_def eval_registry)

text \<open>
  C5. \<open>assignTaskToAgent\<close> fails with \<open>NotFound\<close> exactly when the name is not registered
  and with \<open>CapacityExceeded\<close> exactly when the registered agent has
  \<open>currentTasks \<ge> maxConcurrentTasks\<close>; a failure leaves the registry as it was; otherwise
  it succeeds, the agent's \<open>currentTasks\<close> is one more, its other counters, its
  statistics and its status are as before, and so is every other agent.
\<close>

theorem assignTaskToAgent_outcomes:
  "(fst (assignTaskToAgent now n reg) = Inl NotFound \<longleftrightarrow> map_of reg n = None)
   \<and> (fst (assignTaskToAgent now n reg) = Inl CapacityExceeded \<longleftrightarrow>
        (\<exists>a. map_of reg n = Some a \<and> of_int (currentTasks a) \<ge> maxConcurrentTasks a))
   \<and> ((\<exists>e. fst (assignTaskToAgent now n reg) = Inl e) \<longrightarrow> snd (assignTaskToAgent now n reg) = reg)
   \<and> (\<forall>a. map_of reg n = Some a \<and> of_int (currentTasks a) < maxConcurrentTasks a \<longrightarrow>
        (\<exists>a'. fst (assignTaskToAgent now n reg) = Inr a'
           \<and> map_of (snd (assignTaskToAgent now n reg)) n = Some a'
           \<and> currentTasks a' = currentTasks a + 1
           \<and> maxConcurrentTasks a' = maxConcurrentTasks a
           \<and> performance a' = performance a
           \<and> status a' = status a
           \<and> (\<forall>m. m \<noteq> n \<longrightarrow> map_of (snd (assignTaskToAgent now n reg)) m = map_of reg m)))"
  by (cases "map_of reg n")
     (auto simp add: assignTaskToAgent_def Let_def map_of_update_same map_of_update_other)

theorem assignTaskToAgent_outcomes_witness:
  "fst (assignTaskToAgent 1 ''ghost'' one_agent) = Inl NotFound
   \<and> snd (assignTaskToAgent 1 ''ghost'' one_agent) = one_agent
   \<and> map_of one_agent ''ghost'' = None
   \<and> (\<exists>a. map_of one_agent ''devin'' = Some a \<and> currentTasks a = 0 \<and> maxConcurrentTasks a = 1)
   \<and> (\<exists>a'. fst (assignTaskToAgent 1 ''devin'' one_agent) = Inr a' \<and> currentTasks a' = 1)
   \<and> fst (assignTaskToAgent 2 ''devin'' (snd (assignTaskToAgent 1 ''devin'' one_agent)))
        = Inl CapacityExceeded
   \<and> snd (assignTaskToAgent 2 ''devin'' (snd (assignTaskToAgent 1 ''devin'' one_agent)))
        = snd (assignTaskToAgent 1 ''devin'' one_agent)"
  using assignTaskToAgent_outcomes [of 1 "''ghost''" one_agent]
    assignTaskToAgent_outcomes [of 1 "''devin''" one_agent]
    assignTaskToAgent_outcomes [of 2 "''devin''" "snd (assignTaskToAgent 1 ''devin'' one_agent)"]
  by (simp add: one_agent_def devin_data_def registerAgent_def configured_max_def
        assignTaskToAgent_def Let_def)

text \<open>
  C10. \<open>releaseTaskFromAgent\<close> with a name that is not in the registry returns normally
  (the function has no error result) and leaves the whole registry as it was.
\<close>

theorem release_unknown_agent_noop:
  "map_of reg n = None \<Longrightarrow> releaseTaskFromAgent now n success reg = reg"
  by (simp add: releaseTaskFromAgent_def)

theorem release_unknown_agent_noop_witness:
  "map_of one_agent ''ghost'' = None \<and> one_agent \<noteq> []
   \<and> releaseTaskFromAgent 7 ''ghost'' False one_agent = one_agent"
  using release_unknown_agent_noop [of one_agent "''ghost''" 7 False]
  by (simp add: one_agent_def devin_data_def registerAgent_def Let_def)

section \<open>Properties of agent selection\<close>

text \<open>\<open>includes_str\<close> is the contiguous-sublist test of the library.\<close>

lemma includes_str_sublist: "includes_str s t \<longleftrightarrow> sublist t s"
  by (induction s) (simp_all add: sublist_Cons_right)

lemma sublist_trans': "sublist a b \<Longrightarrow> sublist b c \<Longrightarrow> sublist a c"
  by (metis sublist_order.order_trans)

lemma sub_test: "sublist ''test'' ''testing''" by (simp add: sublist_code)
lemma sub_deploy: "sublist ''deploy'' ''deployment''" by (simp add: sublist_code)

lemma testing_redundant: "sublist ''test'' s \<or> sublist ''testing'' s \<longleftrightarrow> sublist ''test'' s"
  using sublist_trans' [OF sub_test] by auto

lemma deployment_redundant: "sublist ''deploy'' s \<or> sublist ''deployment'' s \<longleftrightarrow> sublist ''deploy'' s"
  using sublist_trans' [OF sub_deploy] by auto

lemma extract_pushed:
  "extractRequiredCapabilities task =
     (if pushed task = [] then [''code_generation'', ''problem_solving''] else pushed task)"
  unfolding extractRequiredCapabilities_def pushed_def spec_capability_rules_def spec_rule_matches_def Let_def
    includes_str_sublist
  by (simp add: testing_redundant deployment_redundant split del: if_split cong: if_cong)

lemma set_concat_rows:
  "set (concat (map (\<lambda>r. if P r then snd r else []) rs))
     = \<Union> (set (map (\<lambda>r. set (snd r)) (filter P rs)))"
  by (induction rs) auto

lemma set_pushed:
  "set (pushed task)
     = \<Union> (set (map (\<lambda>r. set (snd r)) (filter (spec_rule_matches task) spec_capability_rules)))"
  unfolding pushed_def by (rule set_concat_rows)

lemma pushed_Nil: "pushed task = [] \<longleftrightarrow> filter (spec_rule_matches task) spec_capability_rules = []"
  unfolding pushed_def spec_capability_rules_def by simp

text \<open>
  A compare function whose sign orders the elements by \<open>f\<close>, largest first, sorts as the
  library's stable sort by key does, and puts first the first element of largest \<open>f\<close>.
\<close>

lemma sort_by_Cons: "sort_by cmp (x # xs) = insort_by cmp x (sort_by cmp xs)"
  by (simp add: sort_by_def)

lemma sort_by_Nil: "sort_by cmp [] = []"
  by (simp add: sort_by_def)

lemma insort_by_not_Nil: "insort_by cmp x xs \<noteq> []"
  by (cases xs) simp_all

lemma sort_by_eq_Nil: "sort_by cmp xs = [] \<longleftrightarrow> xs = []"
  by (cases xs) (simp_all add: sort_by_Nil sort_by_Cons insort_by_not_Nil)

lemma set_insort_by: "set (insort_by cmp x xs) = insert x (set xs)"
  by (induction xs) auto

lemma set_sort_by: "set (sort_by cmp xs) = set xs"
  by (induction xs) (simp_all add: sort_by_Nil sort_by_Cons set_insort_by)

lemma length_insort_by: "length (insort_by cmp x xs) = Suc (length xs)"
  by (induction xs) simp_all

lemma length_sort_by: "length (sort_by cmp xs) = length xs"
  by (induction xs) (simp_all add: sort_by_Nil sort_by_Cons length_insort_by)

lemma insort_by_key:
  fixes g :: "'a \<Rightarrow> 'b::linorder"
  assumes "\<forall>y \<in> set ys. (cmp x y \<le> 0) = (g x \<le> g y)"
  shows "insort_by cmp x ys = insort_key g x ys"
  using assms by (induction ys) simp_all

lemma sort_by_key:
  fixes g :: "'a \<Rightarrow> 'b::linorder"
  assumes "\<forall>x \<in> set xs. \<forall>y \<in> set xs. (cmp x y \<le> 0) = (g x \<le> g y)"
  shows "sort_by cmp xs = sort_key g xs"
  using assms
proof (induction xs)
  case Nil
  show ?case by (simp add: sort_by_Nil)
next
  case (Cons x xs)
  then have "sort_by cmp xs = sort_key g xs" by simp
  moreover have "\<forall>y \<in> set (sort_key g xs). (cmp x y \<le> 0) = (g x \<le> g y)"
    using Cons.prems by simp
  ultimately show ?case by (simp add: sort_by_Cons insort_by_key)
qed

lemma sort_by_first:
  fixes f :: "'a \<Rightarrow> 'b::linorder"
  assumes "xs \<noteq> []"
      and "\<forall>x \<in> set xs. \<forall>y \<in> set xs. (cmp x y \<le> 0) = (f y \<le> f x)"
  shows "\<exists>h rest pre post. sort_by cmp xs = h # rest \<and> xs = pre @ h # post
           \<and> (\<forall>y \<in> set pre. f y < f h) \<and> (\<forall>y \<in> set post. f y \<le> f h)"
  using assms
proof (induction xs)
  case Nil
  then show ?case by simp
next
  case (Cons x xs)
  show ?case
  proof (cases "xs = []")
    case True
    then have "sort_by cmp (x # xs) = [x]"
      by (simp add: sort_by_Cons sort_by_Nil)
    with True show ?thesis by fastforce
  next
    case False
    have "\<forall>x \<in> set xs. \<forall>y \<in> set xs. (cmp x y \<le> 0) = (f y \<le> f x)"
      using Cons.prems(2) by simp
    with Cons.IH False obtain h rest pre post where
      s: "sort_by cmp xs = h # rest" and xs: "xs = pre @ h # post"
      and pre: "\<forall>y \<in> set pre. f y < f h" and post: "\<forall>y \<in> set post. f y \<le> f h"
      by blast
    have sign: "(cmp x h \<le> 0) = (f h \<le> f x)"
      using Cons.prems(2) xs by simp
    show ?thesis
    proof (cases "f h \<le> f x")
      case True
      then have "sort_by cmp (x # xs) = x # h # rest"
        using sign by (simp add: sort_by_Cons s)
      moreover have "\<forall>y \<in> set xs. f y \<le> f x"
        using True pre post xs by fastforce
      ultimately show ?thesis
        by (metis append_Nil empty_iff empty_set)
    next
      case False
      then have "sort_by cmp (x # xs) = h # insort_by cmp x rest"
        using sign by (simp add: sort_by_Cons s)
      moreover have "x # xs = (x # pre) @ h # post" using xs by simp
      moreover have "\<forall>y \<in> set (x # pre). f y < f h" using False pre by auto
      ultimately show ?thesis using post by blast
    qed
  qed
qed

lemma concat_filter_rows:
  "concat (map snd (filter P rs)) = concat (map (\<lambda>r. if P r then snd r else []) rs)"
  by (induction rs) simp_all

lemma extract_build_test:
  "extractRequiredCapabilities ''build and test'' = [''code_generation'', ''testing'', ''testing'']"
  by code_simp

lemma spec_build_test:
  "spec_required_capabilities ''build and test'' = {''code_generation'', ''testing''}"
  by code_simp

lemma extract_review_deploy:
  "extractRequiredCapabilities ''Review, then deploy'' = [''deployment'', ''code_review'', ''analysis'']"
  by code_simp

text \<open>
  C4, as the source has it. For every task description the array that
  \<open>extractRequiredCapabilities\<close> returns is the capabilities of the matching rows of the rule
  table, row after row in table order, or the default pair when no row matches; as a set
  it is the union the specification describes. The array is not free of duplicates.
\<close>

theorem extractRequiredCapabilities_union:
  "extractRequiredCapabilities task =
     (let rows = filter (spec_rule_matches task) spec_capability_rules
      in if rows = [] then [''code_generation'', ''problem_solving''] else concat (map snd rows))
   \<and> set (extractRequiredCapabilities task) = spec_required_capabilities task"
proof -
  have p: "pushed task = concat (map snd (filter (spec_rule_matches task) spec_capability_rules))"
    by (simp only: pushed_def concat_filter_rows)
  have e: "extractRequiredCapabilities task =
     (if filter (spec_rule_matches task) spec_capability_rules = []
      then [''code_generation'', ''problem_solving''] else pushed task)"
    by (simp only: extract_pushed pushed_Nil)
  have "extractRequiredCapabilities task =
     (let rows = filter (spec_rule_matches task) spec_capability_rules
      in if rows = [] then [''code_generation'', ''problem_solving''] else concat (map snd rows))"
    unfolding Let_def p [symmetric] by (rule e)
  moreover have "set (extractRequiredCapabilities task) = spec_required_capabilities task"
    by (simp add: extract_pushed spec_required_capabilities_def Let_def pushed_Nil set_pushed
          del: set_map)
  ultimately show ?thesis by simp
qed

theorem extractRequiredCapabilities_union_witness:
  "spec_required_capabilities ''Review, then deploy'' = {''deployment'', ''code_review'', ''analysis''}
   \<and> spec_required_capabilities ''build and test'' = {''code_generation'', ''testing''}"
  using extractRequiredCapabilities_union [of "''Review, then deploy''"]
    extractRequiredCapabilities_union [of "''build and test''"]
  by (simp add: extract_review_deploy extract_build_test del: set_map)

text \<open>
  C4, as stated, fails: for ``build and test'' the build row and the test row both match,
  the result holds \<open>testing\<close> twice and has three entries, where the union has two
  members. The length of the array is what the score divides by.
\<close>

theorem extractRequiredCapabilities_duplicates:
  "\<not> distinct (extractRequiredCapabilities ''build and test'')
   \<and> length (extractRequiredCapabilities ''build and test'') = 3
   \<and> card (spec_required_capabilities ''build and test'') = 2"
  by (simp add: extract_build_test spec_build_test)


subsection \<open>Rounding to a double\<close>

lemma floor_frac: "0 \<le> z - of_int \<lfloor>z\<rfloor>" "z - of_int \<lfloor>z\<rfloor> < 1" for z :: rat
  by linarith+

lemma round_even_err: "\<bar>of_int (round_even z) - z\<bar> \<le> 1 / 2"
  using floor_frac [of z] unfolding round_even_def Let_def
  by (simp add: abs_le_iff)

lemma round_even_ge_1:
  assumes "1 \<le> z"
  shows "1 \<le> round_even z"
proof -
  have "1 \<le> \<lfloor>z\<rfloor>" using assms by (simp add: le_floor_iff)
  then show ?thesis by (simp add: round_even_def Let_def)
qed

text \<open>The exponent is not too large: \<open>2 powi exponent x \<le> x\<close>.\<close>

lemma exponent_le:
  assumes "0 < x"
  shows "2 powi (exponent x) \<le> x"
proof (cases "2 powi (bitlen (fst (quotient_of x)) - bitlen (snd (quotient_of x))) \<le> x")
  case True
  then show ?thesis by (simp add: exponent_def Let_def)
next
  case False
  obtain p q where pq: "quotient_of x = (p, q)" by (cases "quotient_of x")
  then have q: "0 < q" and x: "x = of_int p / of_int q"
    by (simp_all add: quotient_of_denom_pos quotient_of_div)
  have p: "0 < p" using assms q x by (simp add: zero_less_divide_iff)
  have bp: "1 \<le> bitlen p" using p by (simp add: bitlen_alt_def)
  from bitlen_bounds [OF p] have "(2::int) ^ nat (bitlen p - 1) \<le> p" by simp
  then have "(of_int ((2::int) ^ nat (bitlen p - 1)) :: rat) \<le> of_int p"
    by (simp only: of_int_le_iff)
  then have lo: "(2::rat) powi (bitlen p - 1) \<le> of_int p"
    using bp by (simp add: power_int_def)
  from bitlen_bounds [OF q] have "q \<le> (2::int) ^ nat (bitlen q)" by simp
  then have "(of_int q :: rat) \<le> of_int ((2::int) ^ nat (bitlen q))"
    by (simp only: of_int_le_iff)
  then have hi: "of_int q \<le> (2::rat) powi (bitlen q)"
    using bitlen_nonneg [of q] by (simp add: power_int_def)
  have "(2::rat) powi (bitlen p - bitlen q - 1) = 2 powi (bitlen p - 1) / 2 powi (bitlen q)"
    using power_int_diff [of "2::rat" "bitlen p - 1" "bitlen q"] by (simp add: algebra_simps)
  also have "\<dots> \<le> of_int p / of_int q"
    using lo hi q p by (intro frac_le) simp_all
  finally have "(2::rat) powi (bitlen p - bitlen q - 1) \<le> x" using x by simp
  then show ?thesis using False pq by (simp add: exponent_def Let_def)
qed

lemma to_double_0: "to_double 0 = 0"
  by (simp add: to_double_def)

lemma to_double_minus: "to_double (- z) = - to_double z"
  by (simp add: to_double_def Let_def)

text \<open>Rounding moves a number by at most half a unit in the last place.\<close>

lemma to_double_err:
  assumes "x \<noteq> 0"
  shows "\<bar>to_double x - x\<bar> \<le> 2 powi (max (exponent \<bar>x\<bar> - 52) (- 1074)) / 2"
proof -
  define e where "e = max (exponent \<bar>x\<bar> - 52) (- 1074)"
  define P where "P = (2::rat) powi e"
  define m where "m = round_even (\<bar>x\<bar> / P)"
  have P: "0 < P" by (simp add: P_def)
  have f: "to_double x = sgn x * of_int m * P"
    using assms by (simp add: to_double_def Let_def e_def P_def m_def)
  have "sgn x * P * (of_int m - \<bar>x\<bar> / P) = sgn x * of_int m * P - sgn x * \<bar>x\<bar>"
    using P by (simp add: algebra_simps)
  then have "to_double x - x = sgn x * P * (of_int m - \<bar>x\<bar> / P)"
    by (simp only: f mult_sgn_abs)
  then have "\<bar>to_double x - x\<bar> = P * \<bar>of_int m - \<bar>x\<bar> / P\<bar>"
    using assms P by (simp add: abs_mult abs_sgn_eq)
  also have "\<dots> \<le> P * (1 / 2)"
    using round_even_err [of "\<bar>x\<bar> / P"] P unfolding m_def
    by (intro mult_left_mono) simp_all
  finally show ?thesis by (simp add: P_def e_def)
qed

lemma to_double_close:
  assumes "\<bar>x\<bar> \<le> 4096"
  shows "\<bar>to_double x - x\<bar> \<le> 1 / 2 ^ 41"
proof (cases "x = 0")
  case True
  then show ?thesis by (simp add: to_double_0)
next
  case False
  define M where "M = max (exponent \<bar>x\<bar> - 52) (- 1074)"
  from False have pos: "0 < \<bar>x\<bar>" by simp
  have "(2::rat) powi 12 = 4096" by (simp add: power_int_def)
  then have "(2::rat) powi (exponent \<bar>x\<bar>) \<le> 2 powi 12"
    using exponent_le [OF pos] assms by linarith
  then have "exponent \<bar>x\<bar> \<le> 12"
    using power_int_le_imp_le_exp [of "2::rat" "exponent \<bar>x\<bar>" 12] by simp
  then have "M \<le> - 40" by (simp add: M_def)
  then have "(2::rat) powi M \<le> 2 powi (- 40)"
    by (intro power_int_increasing) simp_all
  also have "(2::rat) powi (- 40) = 1 / 2 ^ 40"
    by (simp add: power_int_minus field_simps)
  finally have "(2::rat) powi M / 2 \<le> 1 / 2 ^ 41" by simp
  with to_double_err [OF False] show ?thesis unfolding M_def by linarith
qed

text \<open>
  Every double is a whole multiple of the least positive one, and a number that is at
  least that large in magnitude is not rounded to 0. So the difference of two doubles, as
  the compare function of \<open>selectBestAgent\<close> computes it, has the sign of the exact
  difference.
\<close>

lemma to_double_pos:
  assumes u: "u = (2::rat) powi (- 1074)" and z: "u \<le> z"
  shows "0 < to_double z"
proof -
  have "0 < u" by (simp add: u)
  then have zp: "0 < z" using z by linarith
  define e where "e = max (exponent z - 52) (- 1074)"
  have "(2::rat) powi e \<le> z"
  proof (cases "- 1074 \<le> exponent z - 52")
    case True
    then have "e \<le> exponent z" by (simp add: e_def)
    then have "(2::rat) powi e \<le> 2 powi (exponent z)"
      by (intro power_int_increasing) simp_all
    also have "\<dots> \<le> z" by (rule exponent_le [OF zp])
    finally show ?thesis .
  next
    case False
    then have "e = - 1074" by (simp add: e_def)
    then show ?thesis using z by (simp only: u)
  qed
  then have "1 \<le> z / 2 powi e" by (simp add: le_divide_eq)
  then have "1 \<le> round_even (z / 2 powi e)" by (rule round_even_ge_1)
  then have "(0::rat) < of_int (round_even (z / 2 powi e))" by simp
  then have "0 < (of_int (round_even (z / 2 powi e)) :: rat) * 2 powi e"
    by (simp add: zero_less_mult_iff)
  moreover have "to_double z = of_int (round_even (z / 2 powi e)) * 2 powi e"
    using zp by (simp add: to_double_def Let_def e_def)
  ultimately show ?thesis by simp
qed

lemma to_double_grid:
  assumes u: "u = (2::rat) powi (- 1074)"
  shows "\<exists>k::int. to_double x = of_int k * u"
proof (cases "x = 0")
  case True
  have "to_double x = of_int 0 * u" using True by (simp add: to_double_0)
  then show ?thesis by blast
next
  case False
  define e where "e = max (exponent \<bar>x\<bar> - 52) (- 1074)"
  define m where "m = round_even (\<bar>x\<bar> / 2 powi e)"
  define s :: int where "s = (if 0 < x then 1 else - 1)"
  have e: "0 \<le> e + 1074" by (simp add: e_def)
  have "(2::rat) powi ((e + 1074) + (- 1074)) = 2 powi (e + 1074) * 2 powi (- 1074)"
    by (rule power_int_add) simp
  moreover have "(2::rat) powi (e + 1074) = of_int (2 ^ nat (e + 1074))"
    using e by (simp add: power_int_def)
  ultimately have p: "(2::rat) powi e = of_int (2 ^ nat (e + 1074)) * u"
    by (simp only: u add.assoc add.right_neutral add.right_inverse right_minus)
  have s: "sgn x = of_int s" using False by (simp add: s_def sgn_if)
  have "to_double x = sgn x * of_int m * 2 powi e"
    using False by (simp add: to_double_def Let_def e_def m_def)
  also have "\<dots> = of_int s * of_int m * (of_int (2 ^ nat (e + 1074)) * u)"
    by (simp only: p s)
  also have "\<dots> = of_int (s * m * 2 ^ nat (e + 1074)) * u"
    by (simp only: of_int_mult mult.assoc)
  finally show ?thesis by blast
qed

lemma to_double_sign:
  "(to_double (to_double y - to_double x) \<le> 0) = (to_double y \<le> to_double x)"
proof -
  define u where "u = (2::rat) powi (- 1074)"
  have up: "0 < u" by (simp add: u_def)
  obtain k where k: "to_double y = of_int k * u" using to_double_grid [OF u_def] by blast
  obtain j where j: "to_double x = of_int j * u" using to_double_grid [OF u_def] by blast
  define z where "z = to_double y - to_double x"
  have z: "z = of_int (k - j) * u" by (simp add: z_def k j algebra_simps)
  have "(to_double z \<le> 0) = (z \<le> 0)"
  proof (cases "k - j" "0::int" rule: linorder_cases)
    case equal
    then show ?thesis by (simp add: z to_double_0)
  next
    case greater
    then have "1 \<le> k - j" by simp
    then have "(of_int 1 :: rat) \<le> of_int (k - j)" by (simp only: of_int_le_iff)
    then have "1 * u \<le> of_int (k - j) * u" using up by (intro mult_right_mono) simp_all
    then have "u \<le> z" by (simp add: z)
    then have "0 < to_double z" and "0 < z"
      using to_double_pos [OF u_def] up by auto
    then show ?thesis by simp
  next
    case less
    then have "1 \<le> j - k" by simp
    then have "(of_int 1 :: rat) \<le> of_int (j - k)" by (simp only: of_int_le_iff)
    then have "1 * u \<le> of_int (j - k) * u" using up by (intro mult_right_mono) simp_all
    then have "u \<le> - z" by (simp add: z algebra_simps)
    then have "0 < to_double (- z)" and "0 < - z"
      using to_double_pos [OF u_def] up by auto
    then show ?thesis by (simp add: to_double_minus)
  qed
  then show ?thesis by (simp add: z_def)
qed

subsection \<open>The choice of \<open>selectBestAgent\<close>\<close>

lemma score_double: "\<exists>z. score task ctx a = to_double z"
  unfolding score_def Let_def Number_subtract_def by (rule exI) (rule refl)

lemma Number_subtract_sign:
  "(Number_subtract (score task ctx b) (score task ctx a) \<le> 0) = (score task ctx b \<le> score task ctx a)"
proof -
  obtain za where "score task ctx a = to_double za" using score_double by blast
  moreover obtain zb where "score task ctx b = to_double zb" using score_double by blast
  ultimately show ?thesis by (simp add: Number_subtract_def to_double_sign)
qed

lemma selectBestAgent_Inr:
  assumes "getAvailableAgents reg \<noteq> []"
  shows "\<exists>a pre post. selectBestAgent reg task ctx = Inr a
           \<and> getAvailableAgents reg = pre @ a # post
           \<and> (\<forall>b \<in> set pre. score task ctx b < score task ctx a)
           \<and> (\<forall>b \<in> set post. score task ctx b \<le> score task ctx a)"
proof -
  let ?av = "getAvailableAgents reg"
  let ?sc = "map (\<lambda>agent. (agent, score task ctx agent)) ?av"
  have "?sc \<noteq> []" using assms by simp
  have "(Number_subtract (snd y) (snd x) \<le> 0) = (snd y \<le> snd x)"
    if "x \<in> set ?sc" "y \<in> set ?sc" for x y
    using that by (auto simp add: Number_subtract_sign)
  then have "\<forall>x \<in> set ?sc. \<forall>y \<in> set ?sc. (Number_subtract (snd y) (snd x) \<le> 0) = (snd y \<le> snd x)"
    by blast
  from sort_by_first [OF \<open>?sc \<noteq> []\<close> this] obtain h rest pre post where
    s: "sort_by (\<lambda>a b. Number_subtract (snd b) (snd a)) ?sc = h # rest"
    and sc: "?sc = pre @ h # post"
    and pre: "\<forall>y \<in> set pre. snd y < snd h" and post: "\<forall>y \<in> set post. snd y \<le> snd h"
    by blast
  from sc obtain pre' a post' where av: "?av = pre' @ a # post'"
    and p1: "pre = map (\<lambda>agent. (agent, score task ctx agent)) pre'"
    and h: "h = (a, score task ctx a)"
    and p2: "post = map (\<lambda>agent. (agent, score task ctx agent)) post'"
    by (auto simp add: map_eq_append_conv map_eq_Cons_conv)
  have "selectBestAgent reg task ctx = Inr a"
    using assms s h by (simp add: selectBestAgent_def Let_def)
  moreover have "\<forall>b \<in> set pre'. score task ctx b < score task ctx a"
    using pre p1 h by simp
  moreover have "\<forall>b \<in> set post'. score task ctx b \<le> score task ctx a"
    using post p2 h by simp
  ultimately show ?thesis using av by blast
qed

lemma selectBestAgent_Inl:
  "selectBestAgent reg task ctx = Inl e \<longleftrightarrow> e = NoAvailableAgent \<and> getAvailableAgents reg = []"
proof (cases "getAvailableAgents reg = []")
  case True
  then show ?thesis by (auto simp add: selectBestAgent_def)
next
  case False
  from selectBestAgent_Inr [OF this, of task ctx] obtain a where "selectBestAgent reg task ctx = Inr a"
    by blast
  then show ?thesis using False by simp
qed

lemma selectBestAgent_strict_best:
  assumes a: "a \<in> set (getAvailableAgents reg)"
      and best: "\<forall>b \<in> set (getAvailableAgents reg). b \<noteq> a \<longrightarrow> score task ctx b < score task ctx a"
  shows "selectBestAgent reg task ctx = Inr a"
proof -
  have "getAvailableAgents reg \<noteq> []" using a by auto
  from selectBestAgent_Inr [OF this, of task ctx] obtain w pre post where
    w: "selectBestAgent reg task ctx = Inr w" and av: "getAvailableAgents reg = pre @ w # post"
    and pre: "\<forall>b \<in> set pre. score task ctx b < score task ctx w"
    and post: "\<forall>b \<in> set post. score task ctx b \<le> score task ctx w"
    by blast
  have "score task ctx a \<le> score task ctx w"
    using a av pre post by (auto simp add: less_imp_le)
  moreover have "w \<in> set (getAvailableAgents reg)" using av by simp
  ultimately have "w = a" using best by force
  with w show ?thesis by simp
qed

text \<open>The chain of tests of \<open>determineTaskType\<close> is the table of the specification.\<close>

lemma determineTaskType_spec: "determineTaskType task = spec_task_domain task"
  unfolding determineTaskType_def spec_task_domain_def spec_domain_rules_def Let_def
    includes_str_sublist
  by simp

lemma extractRequiredCapabilities_not_Nil: "extractRequiredCapabilities task \<noteq> []"
  by (simp add: extract_pushed)

text \<open>
  The score in doubles against the sum in exact arithmetic: each of the thirteen
  roundings moves a value of this size by at most \<open>1 / 2 ^ 41\<close>.
\<close>

lemma product_close:
  assumes d: "d = (1::rat) / 2 ^ 41"
      and q: "0 \<le> q" "q \<le> 1" and w: "0 \<le> w" "w \<le> 100"
  shows "\<bar>Number_multiply (to_double q) w - q * w\<bar> \<le> w * d + d"
proof -
  have dp: "0 \<le> d" "d \<le> 1" by (simp_all add: d)
  define q' where "q' = to_double q"
  have "\<bar>q\<bar> \<le> 4096" using q by simp
  then have a: "\<bar>q' - q\<bar> \<le> d" unfolding q'_def d by (rule to_double_close)
  have "\<bar>q' * w - q * w\<bar> = \<bar>q' - q\<bar> * w"
    using w by (simp add: abs_mult flip: left_diff_distrib)
  also have "\<dots> \<le> d * w" using a w by (intro mult_right_mono) simp_all
  finally have b: "\<bar>q' * w - q * w\<bar> \<le> w * d" by (simp add: mult.commute)
  have "q * w \<le> 1 * w" using q w by (intro mult_right_mono) simp_all
  moreover have "0 \<le> q * w" using q w by simp
  moreover have "w * d \<le> w * 1" using dp w by (intro mult_left_mono) simp_all
  ultimately have "\<bar>q' * w\<bar> \<le> 4096" using b w by linarith
  then have "\<bar>to_double (q' * w) - q' * w\<bar> \<le> d" unfolding d by (rule to_double_close)
  then have "\<bar>to_double (q' * w) - q * w\<bar> \<le> w * d + d" using b by linarith
  then show ?thesis by (simp add: Number_multiply_def q'_def)
qed

lemma sum_close:
  assumes d: "d = (1::rat) / 2 ^ 41"
      and s: "\<bar>s - S\<bar> \<le> a" and t: "\<bar>t - T\<bar> \<le> b"
      and bound: "\<bar>S + T\<bar> \<le> 4000" "a + b \<le> 1"
  shows "\<bar>Number_add s t - (S + T)\<bar> \<le> a + b + d"
proof -
  have "\<bar>s + t\<bar> \<le> 4096" using s t bound by linarith
  then have "\<bar>to_double (s + t) - (s + t)\<bar> \<le> d" unfolding d by (rule to_double_close)
  then show ?thesis using s t by (simp add: Number_add_def)
qed

lemma difference_close:
  assumes d: "d = (1::rat) / 2 ^ 41"
      and s: "\<bar>s - S\<bar> \<le> a" and t: "\<bar>t - T\<bar> \<le> b"
      and bound: "\<bar>S - T\<bar> \<le> 4000" "a + b \<le> 1"
  shows "\<bar>Number_subtract s t - (S - T)\<bar> \<le> a + b + d"
proof -
  have "\<bar>s - t\<bar> \<le> 4096" using s t bound by linarith
  then have "\<bar>to_double (s - t) - (s - t)\<bar> \<le> d" unfolding d by (rule to_double_close)
  then show ?thesis using s t by (simp add: Number_subtract_def)
qed

lemma ratio_unit:
  assumes "m \<le> n"
  shows "0 \<le> (of_nat m :: rat) / of_nat n" "(of_nat m :: rat) / of_nat n \<le> 1"
proof -
  show "0 \<le> (of_nat m :: rat) / of_nat n" by simp
  have "(of_nat m :: rat) \<le> of_nat n" using assms by simp
  then show "(of_nat m :: rat) / of_nat n \<le> 1"
    by (cases "n = 0") (simp_all add: divide_le_eq_1)
qed

lemma score_close:
  assumes r: "0 \<le> successRate (performance a)" "successRate (performance a) \<le> 1"
      and c: "0 \<le> currentTasks a" "of_int (currentTasks a) < maxConcurrentTasks a"
  shows "\<bar>score task ctx a - exact_score task ctx a\<bar> \<le> 1 / 2 ^ 33"
proof -
  define d :: rat where "d = 1 / 2 ^ 41"
  have dp: "0 \<le> d" "1000 * d \<le> 1" by (simp_all add: d_def)
  define required where "required = extractRequiredCapabilities task"
  define matching where "matching = filter (\<lambda>cap. cap \<in> set (capabilities a)) required"
  define stack where "stack = (case technology_stack ctx of None \<Rightarrow> [] | Some l \<Rightarrow> l)"
  define languages where
    "languages = filter (includes_opt (preferred_languages (configuration a))) stack"
  define special where
    "special = includes_opt (specializations (configuration a)) (spec_task_domain task)"
  define R where "R = successRate (performance a)"
  define Q2 :: rat where "Q2 = of_nat (length matching) / of_nat (length required)"
  define Q3 :: rat where "Q3 = of_nat (length languages) / of_nat (max (length stack) 1)"
  define Q5 :: rat where "Q5 = of_int (currentTasks a) / maxConcurrentTasks a"
  define t1 where "t1 = Number_multiply (to_double R) 100"
  define t2 where "t2 = Number_multiply (to_double Q2) 50"
  define t3 where "t3 = Number_multiply (to_double Q3) 30"
  define t5 where "t5 = Number_multiply (to_double Q5) 20"
  define s1 where "s1 = Number_add 0 t1"
  define s2 where "s2 = Number_add s1 t2"
  define s3 where "s3 = Number_add s2 t3"
  define s4 where "s4 = (if special then Number_add s3 20 else s3)"
  define B :: rat where "B = (if special then 20 else 0)"
  have R: "0 \<le> R" "R \<le> 1" using r by (simp_all add: R_def)
  have "length matching \<le> length required" by (simp add: matching_def)
  from ratio_unit [OF this] have Q2: "0 \<le> Q2" "Q2 \<le> 1" by (simp_all add: Q2_def)
  have "length languages \<le> max (length stack) 1" by (simp add: languages_def le_max_iff_disj)
  from ratio_unit [OF this] have Q3: "0 \<le> Q3" "Q3 \<le> 1" by (simp_all add: Q3_def)
  have mx: "0 < maxConcurrentTasks a" using c by linarith
  have Q5: "0 \<le> Q5" "Q5 \<le> 1" using c mx by (simp_all add: Q5_def)
  have t1: "\<bar>t1 - R * 100\<bar> \<le> 101 * d"
    using product_close [OF d_def R, of 100] by (simp add: t1_def)
  have t2: "\<bar>t2 - Q2 * 50\<bar> \<le> 51 * d"
    using product_close [OF d_def Q2, of 50] by (simp add: t2_def)
  have t3: "\<bar>t3 - Q3 * 30\<bar> \<le> 31 * d"
    using product_close [OF d_def Q3, of 30] by (simp add: t3_def)
  have t5: "\<bar>t5 - Q5 * 20\<bar> \<le> 21 * d"
    using product_close [OF d_def Q5, of 20] by (simp add: t5_def)
  have z: "\<bar>(0::rat) - 0\<bar> \<le> 0" by simp
  have "\<bar>s1 - (0 + R * 100)\<bar> \<le> 0 + 101 * d + d"
    unfolding s1_def using R dp by (intro sum_close [OF d_def z t1]) simp_all
  then have s1: "\<bar>s1 - R * 100\<bar> \<le> 102 * d" by simp
  have "\<bar>s2 - (R * 100 + Q2 * 50)\<bar> \<le> 102 * d + 51 * d + d"
    unfolding s2_def using R Q2 dp by (intro sum_close [OF d_def s1 t2]) simp_all
  then have s2: "\<bar>s2 - (R * 100 + Q2 * 50)\<bar> \<le> 154 * d" by simp
  have "\<bar>s3 - (R * 100 + Q2 * 50 + Q3 * 30)\<bar> \<le> 154 * d + 31 * d + d"
    unfolding s3_def using R Q2 Q3 dp by (intro sum_close [OF d_def s2 t3]) simp_all
  then have s3: "\<bar>s3 - (R * 100 + Q2 * 50 + Q3 * 30)\<bar> \<le> 186 * d" by simp
  have s4: "\<bar>s4 - (R * 100 + Q2 * 50 + Q3 * 30 + B)\<bar> \<le> 187 * d"
  proof (cases special)
    case True
    have tw: "\<bar>(20::rat) - 20\<bar> \<le> 0" by simp
    have "\<bar>Number_add s3 20 - (R * 100 + Q2 * 50 + Q3 * 30 + 20)\<bar> \<le> 186 * d + 0 + d"
      using R Q2 Q3 dp by (intro sum_close [OF d_def s3 tw]) simp_all
    then show ?thesis using True by (simp add: s4_def B_def)
  next
    case False
    then show ?thesis using s3 dp by (simp add: s4_def B_def)
  qed
  have B: "0 \<le> B" "B \<le> 20" by (simp_all add: B_def)
  have "\<bar>Number_subtract s4 t5 - (R * 100 + Q2 * 50 + Q3 * 30 + B - Q5 * 20)\<bar>
          \<le> 187 * d + 21 * d + d"
    using R Q2 Q3 Q5 B dp by (intro difference_close [OF d_def s4 t5]) simp_all
  moreover have "187 * d + 21 * d + d \<le> 1 / 2 ^ 33" by (simp add: d_def)
  ultimately have fin: "\<bar>Number_subtract s4 t5 - (R * 100 + Q2 * 50 + Q3 * 30 + B - Q5 * 20)\<bar>
          \<le> 1 / 2 ^ 33"
    by linarith
  have sc: "score task ctx a = Number_subtract s4 t5"
    unfolding score_def Let_def s4_def s3_def s2_def s1_def t1_def t2_def t3_def t5_def
      R_def Q2_def Q3_def Q5_def special_def languages_def stack_def matching_def required_def
      Number_divide_def determineTaskType_spec
    by (rule refl)
  have ex: "exact_score task ctx a = R * 100 + Q2 * 50 + Q3 * 30 + B - Q5 * 20"
    unfolding exact_score_def Let_def R_def Q2_def Q3_def Q5_def B_def special_def
      languages_def stack_def matching_def required_def
    by (rule refl)
  show ?thesis unfolding sc ex by (rule fin)
qed

text \<open>What the invariant of registered agents gives for an available agent.\<close>

lemma available_agent:
  assumes "a \<in> set (getAvailableAgents reg)"
  shows "a \<in> set (map snd reg)" "status a = Active"
    "of_int (currentTasks a) < maxConcurrentTasks a"
  using assms by (simp_all add: getAvailableAgents_def)

lemma rate_unit:
  assumes "agent_ok a"
  shows "0 \<le> successRate (performance a)" "successRate (performance a) \<le> 1"
proof -
  let ?p = "performance a"
  have rate: "successRate ?p
      = (if totalTasks ?p > 0 then of_nat (completedTasks ?p) / of_nat (totalTasks ?p) else 0)"
    and "completedTasks ?p \<le> totalTasks ?p"
    using assms by (simp_all add: agent_ok_def performance_ok_def)
  from ratio_unit [OF this(2)] show "0 \<le> successRate ?p" "successRate ?p \<le> 1"
    by (simp_all add: rate)
qed

lemma available_score_close:
  assumes "a \<in> set (getAvailableAgents (run calls []))"
  shows "\<bar>score task ctx a - exact_score task ctx a\<bar> \<le> 1 / 2 ^ 33"
proof -
  have "a \<in> set (map snd (run calls []))" and below: "of_int (currentTasks a) < maxConcurrentTasks a"
    using available_agent [OF assms] by blast+
  then have ok: "agent_ok a" using run_from_empty_ok by blast
  then have "0 \<le> currentTasks a" by (simp add: agent_ok_def)
  with rate_unit [OF ok] below show ?thesis by (intro score_close)
qed

lemma exact_score_same_but_rate:
  assumes "capabilities a = capabilities b" "configuration a = configuration b"
    "currentTasks a = currentTasks b" "maxConcurrentTasks a = maxConcurrentTasks b"
  shows "exact_score task ctx a - exact_score task ctx b
           = (successRate (performance a) - successRate (performance b)) * 100"
  using assms by (simp add: exact_score_def Let_def algebra_simps)

text \<open>
  An available agent whose exact sum is above that of every other one by more than the
  rounding can make up for is chosen.
\<close>

lemma selectBestAgent_clear_best:
  assumes reg: "reg = run calls []"
      and a: "a \<in> set (getAvailableAgents reg)"
      and best: "\<forall>b \<in> set (getAvailableAgents reg). b \<noteq> a \<longrightarrow>
                   exact_score task ctx b + 1 / 2 ^ 32 < exact_score task ctx a"
  shows "selectBestAgent reg task ctx = Inr a"
proof (rule selectBestAgent_strict_best [OF a])
  define t :: rat where "t = 1 / 2 ^ 33"
  have t: "1 / 2 ^ 32 = 2 * t" by (simp add: t_def)
  have sa: "\<bar>score task ctx a - exact_score task ctx a\<bar> \<le> t"
    using a unfolding reg t_def by (rule available_score_close)
  have "score task ctx b < score task ctx a"
    if b: "b \<in> set (getAvailableAgents reg)" and ne: "b \<noteq> a" for b
  proof -
    have "\<bar>score task ctx b - exact_score task ctx b\<bar> \<le> t"
      using b unfolding reg t_def by (rule available_score_close)
    moreover have "exact_score task ctx b + 2 * t < exact_score task ctx a"
      using best b ne unfolding t by blast
    ultimately show ?thesis using sa by linarith
  qed
  then show "\<forall>b \<in> set (getAvailableAgents reg). b \<noteq> a \<longrightarrow> score task ctx b < score task ctx a"
    by blast
qed

lemma best_rate_selected:
  assumes reg: "reg = run calls []"
      and av: "set (getAvailableAgents reg) = {a, b, c}"
      and same: "capabilities b = capabilities a" "capabilities c = capabilities a"
        "configuration b = configuration a" "configuration c = configuration a"
        "currentTasks b = currentTasks a" "currentTasks c = currentTasks a"
        "maxConcurrentTasks b = maxConcurrentTasks a" "maxConcurrentTasks c = maxConcurrentTasks a"
      and rates: "successRate (performance a) = 9 / 10" "successRate (performance b) = 1 / 2"
        "successRate (performance c) = 1 / 5"
  shows "selectBestAgent reg task ctx = Inr a"
proof (rule selectBestAgent_clear_best [OF reg])
  show "a \<in> set (getAvailableAgents reg)" using av by simp
  have "exact_score task ctx a - exact_score task ctx b = 40"
    using exact_score_same_but_rate [of a b task ctx] same rates by simp
  moreover have "exact_score task ctx a - exact_score task ctx c = 70"
    using exact_score_same_but_rate [of a c task ctx] same rates by simp
  moreover have "(1::rat) / 2 ^ 32 < 1" by simp
  ultimately have "exact_score task ctx b + 1 / 2 ^ 32 < exact_score task ctx a"
    and "exact_score task ctx c + 1 / 2 ^ 32 < exact_score task ctx a"
    by linarith+
  then show "\<forall>x \<in> set (getAvailableAgents reg). x \<noteq> a \<longrightarrow>
               exact_score task ctx x + 1 / 2 ^ 32 < exact_score task ctx a"
    using av by auto
qed

subsection \<open>Evaluation of the examples\<close>

lemma three_agents_eq:
  "three_agents = [(''b'', rated_agent ''b'' 1 1), (''c'', rated_agent ''c'' 1 4),
                   (''a'', rated_agent ''a'' 9 1)]"
  by code_simp

lemma two_alike_eq: "two_alike = [(''x'', rated_agent ''x'' 1 1), (''y'', rated_agent ''y'' 1 1)]"
  by code_simp

lemma coder_tester_eq: "coder_tester = [(''coder'', coder), (''tester'', busy_tester)]"
  by code_simp

lemma web_specialist_eq:
  "web_specialist = [(''high'', rated_agent ''high'' 9 1), (''mid'', web_agent),
                     (''low'', rated_agent ''low'' 1 4)]"
  by code_simp

lemma third_full_eq: "third_full = [(''third'', third_agent), (''full'', full_agent)]"
  by code_simp

lemma available_three:
  "getAvailableAgents three_agents
     = [rated_agent ''b'' 1 1, rated_agent ''c'' 1 4, rated_agent ''a'' 9 1]"
  by (simp add: three_agents_eq getAvailableAgents_def rated_agent_def)

lemma available_two:
  "getAvailableAgents two_alike = [rated_agent ''x'' 1 1, rated_agent ''y'' 1 1]"
  by (simp add: two_alike_eq getAvailableAgents_def rated_agent_def)

lemma available_coder_tester: "getAvailableAgents coder_tester = [coder, busy_tester]"
  by (simp add: coder_tester_eq getAvailableAgents_def coder_def busy_tester_def
        skilled_agent_def skilled_data_def registerAgent_def configured_max_def Let_def)

lemma available_web:
  "getAvailableAgents web_specialist = [rated_agent ''high'' 9 1, web_agent, rated_agent ''low'' 1 4]"
  by (simp add: web_specialist_eq getAvailableAgents_def rated_agent_def web_agent_def)

lemma available_third_full: "getAvailableAgents third_full = [third_agent, full_agent]"
  by (simp add: third_full_eq getAvailableAgents_def third_agent_def full_agent_def rated_agent_def
        skilled_agent_def skilled_data_def registerAgent_def configured_max_def Let_def)

lemma extract_web_page:
  "extractRequiredCapabilities ''build the web page'' = [''code_generation'', ''testing'']"
  by code_simp

lemma domain_web_page: "spec_task_domain ''build the web page'' = ''web_development''"
  unfolding determineTaskType_spec [symmetric] by code_simp

lemma domain_build_test: "determineTaskType ''build and test'' = ''general_development''"
  by code_simp

lemmas eval_agents = coder_def busy_tester_def skilled_agent_def skilled_data_def
  registerAgent_def configured_max_def Let_def rated_agent_def web_agent_def third_agent_def
  full_agent_def empty_configuration_def no_context_def typescript_context_def includes_opt_def

lemma exact_coder_tester:
  "exact_score ''build and test'' no_context coder = 50 / 3"
  "exact_score ''build and test'' no_context busy_tester = 88 / 3"
  by (simp_all add: exact_score_def Let_def extract_build_test eval_agents)

lemma spec_coder_tester:
  "spec_score ''build and test'' no_context coder = 25"
  "spec_score ''build and test'' no_context busy_tester = 21"
  by (simp_all add: spec_score_def Let_def spec_build_test eval_agents)

lemma exact_web:
  "exact_score ''build the web page'' typescript_context (rated_agent ''high'' 9 1) = 140"
  "exact_score ''build the web page'' typescript_context web_agent = 150"
  "exact_score ''build the web page'' typescript_context (rated_agent ''low'' 1 4) = 70"
  by (simp_all add: exact_score_def Let_def extract_web_page domain_web_page eval_agents)

lemma exact_third_full:
  "exact_score ''build and test'' no_context third_agent = 50"
  "exact_score ''build and test'' no_context full_agent = 50"
  by (simp_all add: exact_score_def Let_def extract_build_test eval_agents)

lemma score_third:
  "score ''build and test'' no_context third_agent = 7036874417766399 / 140737488355328"
  by (simp only: score_def Let_def extract_build_test domain_build_test) code_simp

lemma score_full: "score ''build and test'' no_context full_agent = 50"
  by (simp only: score_def Let_def extract_build_test domain_build_test) code_simp

lemma select_coder_tester:
  "selectBestAgent coder_tester ''build and test'' no_context = Inr busy_tester"
proof (rule selectBestAgent_clear_best [OF coder_tester_def])
  show "busy_tester \<in> set (getAvailableAgents coder_tester)"
    by (simp add: available_coder_tester)
  show "\<forall>b \<in> set (getAvailableAgents coder_tester). b \<noteq> busy_tester \<longrightarrow>
          exact_score ''build and test'' no_context b + 1 / 2 ^ 32
            < exact_score ''build and test'' no_context busy_tester"
    using exact_coder_tester by (simp add: available_coder_tester)
qed

lemma select_web_specialist:
  "selectBestAgent web_specialist ''build the web page'' typescript_context = Inr web_agent"
proof (rule selectBestAgent_clear_best [OF web_specialist_def])
  show "web_agent \<in> set (getAvailableAgents web_specialist)"
    by (simp add: available_web)
  show "\<forall>b \<in> set (getAvailableAgents web_specialist). b \<noteq> web_agent \<longrightarrow>
          exact_score ''build the web page'' typescript_context b + 1 / 2 ^ 32
            < exact_score ''build the web page'' typescript_context web_agent"
    using exact_web by (simp add: available_web)
qed

lemma select_third_full:
  "selectBestAgent third_full ''build and test'' no_context = Inr full_agent"
proof (rule selectBestAgent_strict_best)
  show "full_agent \<in> set (getAvailableAgents third_full)"
    by (simp add: available_third_full)
  show "\<forall>b \<in> set (getAvailableAgents third_full). b \<noteq> full_agent \<longrightarrow>
          score ''build and test'' no_context b < score ''build and test'' no_context full_agent"
    using score_third score_full by (simp add: available_third_full)
qed

lemma score_rated:
  "score task ctx (rated_agent n k j) = score task ctx (rated_agent m k j)"
  by (simp add: score_def Let_def rated_agent_def)

text \<open>
  C3, as the source has it, for every registry that calls of the agent manager build
  from the empty one. The agents \<open>selectBestAgent\<close> ranks are the registered agents that
  are active and below their maximum, in registry order. It fails, with
  \<open>NoAvailableAgent\<close> and no other error, exactly when there is none. Otherwise it
  returns an available agent of maximal \<open>score\<close>, and of those the first in registry
  order: every available agent before it scores strictly less, every one after it at
  most as much. The score is computed in doubles, each operation rounded, in the order
  of the source: the success rate times 100, plus the share of the entries of the
  required-capability array (a repeated entry counted each time) that the agent has
  times 50, plus the share of the technology stack among the preferred languages times
  30, plus 20 if the domain the specification's table gives the task is among the
  specialisations, minus the load ratio times 20. For an available agent it differs from
  that sum in exact arithmetic by at most \<open>1 / 2 ^ 33\<close>, so an available agent whose
  exact sum is more than \<open>1 / 2 ^ 32\<close> above that of every other one is returned. Among
  available agents \<open>a\<close>, \<open>b\<close>, \<open>c\<close> with the same capabilities, configuration and load
  and success rates 0.9, 0.5 and 0.2, in whatever order they are registered, \<open>a\<close> is
  returned.
\<close>

theorem selectBestAgent_first_of_best:
  assumes "reg = run calls []"
  shows
  "getAvailableAgents reg =
     filter (\<lambda>a. status a = Active \<and> of_int (currentTasks a) < maxConcurrentTasks a)
       (getAllAgents reg)
   \<and> (selectBestAgent reg task ctx = Inl NoAvailableAgent \<longleftrightarrow> getAvailableAgents reg = [])
   \<and> (\<forall>e. selectBestAgent reg task ctx = Inl e \<longrightarrow> e = NoAvailableAgent)
   \<and> (getAvailableAgents reg \<noteq> [] \<longrightarrow>
        (\<exists>a pre post. selectBestAgent reg task ctx = Inr a
           \<and> getAvailableAgents reg = pre @ a # post
           \<and> (\<forall>b \<in> set pre. score task ctx b < score task ctx a)
           \<and> (\<forall>b \<in> set post. score task ctx b \<le> score task ctx a)))
   \<and> (\<forall>agent. score task ctx agent =
        (let required = extractRequiredCapabilities task;
             matching = filter (\<lambda>cap. cap \<in> set (capabilities agent)) required;
             stack = (case technology_stack ctx of None \<Rightarrow> [] | Some l \<Rightarrow> l);
             languages = filter (includes_opt (preferred_languages (configuration agent))) stack;
             rate = Number_add 0
                      (Number_multiply (to_double (successRate (performance agent))) 100);
             skills = Number_add rate
                        (Number_multiply
                           (Number_divide (of_nat (length matching)) (of_nat (length required)))
                           50);
             spoken = Number_add skills
                        (Number_multiply
                           (Number_divide (of_nat (length languages))
                              (of_nat (max (length stack) 1)))
                           30);
             special = (if includes_opt (specializations (configuration agent))
                             (spec_task_domain task)
                        then Number_add spoken 20 else spoken)
         in Number_subtract special
              (Number_multiply
                 (Number_divide (of_int (currentTasks agent)) (maxConcurrentTasks agent)) 20)))
   \<and> (\<forall>a \<in> set (getAvailableAgents reg).
         \<bar>score task ctx a - exact_score task ctx a\<bar> \<le> 1 / 2 ^ 33)
   \<and> (\<forall>a \<in> set (getAvailableAgents reg).
         (\<forall>b \<in> set (getAvailableAgents reg). b \<noteq> a \<longrightarrow>
            exact_score task ctx b + 1 / 2 ^ 32 < exact_score task ctx a)
         \<longrightarrow> selectBestAgent reg task ctx = Inr a)
   \<and> (\<forall>a b c. set (getAvailableAgents reg) = {a, b, c}
         \<and> capabilities b = capabilities a \<and> capabilities c = capabilities a
         \<and> configuration b = configuration a \<and> configuration c = configuration a
         \<and> currentTasks b = currentTasks a \<and> currentTasks c = currentTasks a
         \<and> maxConcurrentTasks b = maxConcurrentTasks a
         \<and> maxConcurrentTasks c = maxConcurrentTasks a
         \<and> successRate (performance a) = 9 / 10
         \<and> successRate (performance b) = 1 / 2
         \<and> successRate (performance c) = 1 / 5
        \<longrightarrow> selectBestAgent reg task ctx = Inr a)"
proof -
  have c1: "getAvailableAgents reg =
     filter (\<lambda>a. status a = Active \<and> of_int (currentTasks a) < maxConcurrentTasks a)
       (getAllAgents reg)"
    by (simp add: getAvailableAgents_def getAllAgents_def)
  have c2: "selectBestAgent reg task ctx = Inl NoAvailableAgent \<longleftrightarrow> getAvailableAgents reg = []"
    by (simp add: selectBestAgent_Inl)
  have c3: "\<forall>e. selectBestAgent reg task ctx = Inl e \<longrightarrow> e = NoAvailableAgent"
    by (simp add: selectBestAgent_Inl)
  have c4: "getAvailableAgents reg \<noteq> [] \<longrightarrow>
        (\<exists>a pre post. selectBestAgent reg task ctx = Inr a
           \<and> getAvailableAgents reg = pre @ a # post
           \<and> (\<forall>b \<in> set pre. score task ctx b < score task ctx a)
           \<and> (\<forall>b \<in> set post. score task ctx b \<le> score task ctx a))"
    using selectBestAgent_Inr by blast
  have c5: "\<forall>agent. score task ctx agent =
        (let required = extractRequiredCapabilities task;
             matching = filter (\<lambda>cap. cap \<in> set (capabilities agent)) required;
             stack = (case technology_stack ctx of None \<Rightarrow> [] | Some l \<Rightarrow> l);
             languages = filter (includes_opt (preferred_languages (configuration agent))) stack;
             rate = Number_add 0
                      (Number_multiply (to_double (successRate (performance agent))) 100);
             skills = Number_add rate
                        (Number_multiply
                           (Number_divide (of_nat (length matching)) (of_nat (length required)))
                           50);
             spoken = Number_add skills
                        (Number_multiply
                           (Number_divide (of_nat (length languages))
                              (of_nat (max (length stack) 1)))
                           30);
             special = (if includes_opt (specializations (configuration agent))
                             (spec_task_domain task)
                        then Number_add spoken 20 else spoken)
         in Number_subtract special
              (Number_multiply
                 (Number_divide (of_int (currentTasks agent)) (maxConcurrentTasks agent)) 20))"
    unfolding score_def Let_def determineTaskType_spec by (intro allI) (rule refl)
  have c6: "\<forall>a \<in> set (getAvailableAgents reg).
         \<bar>score task ctx a - exact_score task ctx a\<bar> \<le> 1 / 2 ^ 33"
    unfolding assms by (intro ballI) (rule available_score_close)
  have c7: "\<forall>a \<in> set (getAvailableAgents reg).
         (\<forall>b \<in> set (getAvailableAgents reg). b \<noteq> a \<longrightarrow>
            exact_score task ctx b + 1 / 2 ^ 32 < exact_score task ctx a)
         \<longrightarrow> selectBestAgent reg task ctx = Inr a"
    by (intro ballI impI) (rule selectBestAgent_clear_best [OF assms])
  have c8: "\<forall>a b c. set (getAvailableAgents reg) = {a, b, c}
         \<and> capabilities b = capabilities a \<and> capabilities c = capabilities a
         \<and> configuration b = configuration a \<and> configuration c = configuration a
         \<and> currentTasks b = currentTasks a \<and> currentTasks c = currentTasks a
         \<and> maxConcurrentTasks b = maxConcurrentTasks a
         \<and> maxConcurrentTasks c = maxConcurrentTasks a
         \<and> successRate (performance a) = 9 / 10
         \<and> successRate (performance b) = 1 / 2
         \<and> successRate (performance c) = 1 / 5
        \<longrightarrow> selectBestAgent reg task ctx = Inr a"
  proof (intro allI impI, elim conjE)
    fix a b c
    assume "set (getAvailableAgents reg) = {a, b, c}"
      "capabilities b = capabilities a" "capabilities c = capabilities a"
      "configuration b = configuration a" "configuration c = configuration a"
      "currentTasks b = currentTasks a" "currentTasks c = currentTasks a"
      "maxConcurrentTasks b = maxConcurrentTasks a" "maxConcurrentTasks c = maxConcurrentTasks a"
      "successRate (performance a) = 9 / 10" "successRate (performance b) = 1 / 2"
      "successRate (performance c) = 1 / 5"
    then show "selectBestAgent reg task ctx = Inr a"
      by (rule best_rate_selected [OF assms])
  qed
  show ?thesis
    by (rule conjI [OF c1 conjI [OF c2 conjI [OF c3 conjI [OF c4 conjI [OF c5
          conjI [OF c6 conjI [OF c7 c8]]]]]]])
qed

theorem selectBestAgent_first_of_best_witness:
  "selectBestAgent (run [] []) ''build the login page'' no_context = Inl NoAvailableAgent
   \<and> getAvailableAgents three_agents
       = [rated_agent ''b'' 1 1, rated_agent ''c'' 1 4, rated_agent ''a'' 9 1]
   \<and> successRate (performance (rated_agent ''a'' 9 1)) = 9 / 10
   \<and> successRate (performance (rated_agent ''b'' 1 1)) = 1 / 2
   \<and> successRate (performance (rated_agent ''c'' 1 4)) = 1 / 5
   \<and> selectBestAgent three_agents ''build the login page'' no_context
       = Inr (rated_agent ''a'' 9 1)
   \<and> score ''build the login page'' no_context (rated_agent ''x'' 1 1)
       = score ''build the login page'' no_context (rated_agent ''y'' 1 1)
   \<and> selectBestAgent two_alike ''build the login page'' no_context
       = Inr (rated_agent ''x'' 1 1)
   \<and> getAvailableAgents third_full = [third_agent, full_agent]
   \<and> exact_score ''build and test'' no_context third_agent = 50
   \<and> exact_score ''build and test'' no_context full_agent = 50
   \<and> score ''build and test'' no_context third_agent = 7036874417766399 / 140737488355328
   \<and> score ''build and test'' no_context full_agent = 50
   \<and> selectBestAgent third_full ''build and test'' no_context = Inr full_agent"
proof -
  let ?t = "''build the login page''"
  note main3 = selectBestAgent_first_of_best [of three_agents three_calls ?t no_context,
      OF three_agents_def]
  note main2 = selectBestAgent_first_of_best [of two_alike two_calls ?t no_context,
      OF two_alike_def]
  note main0 = selectBestAgent_first_of_best [of "run [] []" "[]" ?t no_context, OF refl]
  note empty = main0 [THEN conjunct2, THEN conjunct1]
  note first = main2 [THEN conjunct2, THEN conjunct2, THEN conjunct2, THEN conjunct1]
  note rated = main3 [THEN conjunct2, THEN conjunct2, THEN conjunct2, THEN conjunct2,
      THEN conjunct2, THEN conjunct2, THEN conjunct2]
  have "getAvailableAgents (run [] []) = []"
    by (simp add: getAvailableAgents_def run_def)
  then have none: "selectBestAgent (run [] []) ?t no_context = Inl NoAvailableAgent"
    using empty by simp
  have rates: "successRate (performance (rated_agent ''a'' 9 1)) = 9 / 10"
    "successRate (performance (rated_agent ''b'' 1 1)) = 1 / 2"
    "successRate (performance (rated_agent ''c'' 1 4)) = 1 / 5"
    by (simp_all add: rated_agent_def)
  have same: "capabilities (rated_agent n k j) = capabilities (rated_agent ''a'' 9 1)"
    "configuration (rated_agent n k j) = configuration (rated_agent ''a'' 9 1)"
    "currentTasks (rated_agent n k j) = currentTasks (rated_agent ''a'' 9 1)"
    "maxConcurrentTasks (rated_agent n k j) = maxConcurrentTasks (rated_agent ''a'' 9 1)"
    for n k j
    by (simp_all add: rated_agent_def)
  have "set (getAvailableAgents three_agents)
          = {rated_agent ''a'' 9 1, rated_agent ''b'' 1 1, rated_agent ''c'' 1 4}"
    unfolding available_three by auto
  then have three: "selectBestAgent three_agents ?t no_context = Inr (rated_agent ''a'' 9 1)"
    using rated rates same by blast
  have "getAvailableAgents two_alike \<noteq> []" unfolding available_two by simp
  with first obtain a pre post where sel: "selectBestAgent two_alike ?t no_context = Inr a"
    and av: "getAvailableAgents two_alike = pre @ a # post"
    and pre: "\<forall>b \<in> set pre. score ?t no_context b < score ?t no_context a"
    by blast
  have eq: "score ?t no_context (rated_agent ''x'' 1 1) = score ?t no_context (rated_agent ''y'' 1 1)"
    by (rule score_rated)
  have "a = rated_agent ''x'' 1 1"
  proof (cases pre)
    case Nil
    then show ?thesis using av unfolding available_two by simp
  next
    case (Cons p ps)
    then have "p = rated_agent ''x'' 1 1"
      and "a = rated_agent ''x'' 1 1 \<or> a = rated_agent ''y'' 1 1"
      using av unfolding available_two by (auto simp add: Cons_eq_append_conv)
    then show ?thesis using pre Cons eq by auto
  qed
  with sel have two: "selectBestAgent two_alike ?t no_context = Inr (rated_agent ''x'' 1 1)"
    by simp
  show ?thesis
    by (intro conjI none available_three rates three eq two available_third_full
          exact_third_full score_third score_full select_third_full)
qed

text \<open>
  C3, as stated, fails twice. For ``build and test'' the required capabilities are
  \<open>code_generation\<close> and \<open>testing\<close>; by the stated formula the idle agent that can
  generate code scores 25 and the agent with one of five tasks reserved that can test
  scores 21, yet the second is returned: the code counts \<open>testing\<close> twice. And of three
  available agents with identical capabilities and success rates 0.9, 0.5 and 0.2 the
  one with rate 0.5 is returned when its specialisation and preferred language fit the
  task.
\<close>

theorem selectBestAgent_not_claimed_best:
  "getAvailableAgents coder_tester = [coder, busy_tester]
   \<and> spec_score ''build and test'' no_context coder = 25
   \<and> spec_score ''build and test'' no_context busy_tester = 21
   \<and> selectBestAgent coder_tester ''build and test'' no_context = Inr busy_tester
   \<and> getAvailableAgents web_specialist
       = [rated_agent ''high'' 9 1, web_agent, rated_agent ''low'' 1 4]
   \<and> capabilities web_agent = capabilities (rated_agent ''high'' 9 1)
   \<and> capabilities (rated_agent ''low'' 1 4) = capabilities (rated_agent ''high'' 9 1)
   \<and> successRate (performance (rated_agent ''high'' 9 1)) = 9 / 10
   \<and> successRate (performance web_agent) = 1 / 2
   \<and> successRate (performance (rated_agent ''low'' 1 4)) = 1 / 5
   \<and> selectBestAgent web_specialist ''build the web page'' typescript_context = Inr web_agent"
proof -
  have "capabilities web_agent = capabilities (rated_agent ''high'' 9 1)"
    "capabilities (rated_agent ''low'' 1 4) = capabilities (rated_agent ''high'' 9 1)"
    "successRate (performance (rated_agent ''high'' 9 1)) = 9 / 10"
    "successRate (performance web_agent) = 1 / 2"
    "successRate (performance (rated_agent ''low'' 1 4)) = 1 / 5"
    by (simp_all add: rated_agent_def web_agent_def)
  then show ?thesis
    by (intro conjI available_coder_tester spec_coder_tester select_coder_tester available_web
          select_web_specialist)
qed

section \<open>Properties of task execution\<close>

text \<open>
  With a database that does not throw, \<open>releaseTaskFromAgent\<close> is called once, with
  \<open>true\<close> when the executor returned and \<open>false\<close> when it threw.
\<close>

lemma executeTaskWithAgent_releases_once:
  assumes "updateTaskStatus_throws env = (\<lambda>st. None)"
      and "logTaskExecution_throws env = (\<lambda>action. None)"
  shows "releases (snd (snd (executeTaskWithAgent env now agent reg)))
           = [(name agent, \<exists>r. executor env agent = Inr r)]"
  using assms
  by (cases "executor env agent")
     (simp_all add: executeTaskWithAgent_def execute_try_def execute_catch_def releases_def Let_def)

lemma two_reserved_eq:
  "two_reserved = [(''cursor'', cursor\<lparr>currentTasks := 2, lastHeartbeat := 2\<rparr>)]"
  by (simp add: two_reserved_def cursor_def cursor_data_def eval_registry)

text \<open>
  C6 does not hold of the source when a database call throws. The agent has two tasks
  reserved. The executor returns, the status update goes through, the agent is released
  with \<open>true\<close>, and then the log insert throws: the \<open>catch\<close> block releases the agent a
  second time, with \<open>false\<close>. One task has taken both reservations and counts as one
  completed and one failed task. And when the executor throws and the update to
  \<open>failed\<close> throws in the \<open>catch\<close> block, the agent is not released at all.
\<close>

theorem executeTaskWithAgent_release_not_once:
  "map currentTasks (getAllAgents two_reserved) = [2]
   \<and> releases (snd (snd (executeTaskWithAgent log_throws 3 cursor two_reserved)))
        = [(''cursor'', True), (''cursor'', False)]
   \<and> map currentTasks (getAllAgents (fst (snd (executeTaskWithAgent log_throws 3 cursor two_reserved))))
        = [0]
   \<and> map (totalTasks \<circ> performance)
        (getAllAgents (fst (snd (executeTaskWithAgent log_throws 3 cursor two_reserved)))) = [2]
   \<and> map (completedTasks \<circ> performance)
        (getAllAgents (fst (snd (executeTaskWithAgent log_throws 3 cursor two_reserved)))) = [1]
   \<and> map (failedTasks \<circ> performance)
        (getAllAgents (fst (snd (executeTaskWithAgent log_throws 3 cursor two_reserved)))) = [1]
   \<and> releases (snd (snd (executeTaskWithAgent update_throws 3 cursor two_reserved))) = []
   \<and> fst (snd (executeTaskWithAgent update_throws 3 cursor two_reserved)) = two_reserved"
  by (simp add: two_reserved_eq executeTaskWithAgent_def execute_try_def execute_catch_def
        releases_def log_throws_def update_throws_def cursor_def cursor_data_def
        registerAgent_def Let_def configured_max_def releaseTaskFromAgent_def release_agent_def
        release_performance_def getAllAgents_def)

section \<open>Properties of the task queue\<close>

lemma findIndex_None: "findIndex P xs = None \<longleftrightarrow> (\<forall>x \<in> set xs. \<not> P x)"
  by (induction xs) auto

lemma findIndex_Some:
  "findIndex P xs = Some i \<Longrightarrow>
     i < length xs \<and> P (xs ! i) \<and> (\<forall>x \<in> set (take i xs). \<not> P x)"
proof (induction xs arbitrary: i)
  case Nil
  then show ?case by simp
next
  case (Cons x xs)
  show ?case
  proof (cases "P x")
    case True
    with Cons.prems show ?thesis by simp
  next
    case False
    with Cons.prems obtain j where j: "findIndex P xs = Some j" and i: "i = Suc j"
      by auto
    from Cons.IH [OF j] False i show ?thesis by simp
  qed
qed

lemma cancelTask_queued:
  assumes "taskId \<in> task_id ` set (queue s)"
  shows "\<exists>pre t post. queue s = pre @ t # post \<and> task_id t = taskId
           \<and> taskId \<notin> task_id ` set pre
           \<and> cancelTask taskId s = (Inr (t\<lparr>task_status := Cancelled\<rparr>), s\<lparr>queue := pre @ post\<rparr>)"
proof -
  from assms have "findIndex (\<lambda>task. task_id task = taskId) (queue s) \<noteq> None"
    by (auto simp add: findIndex_None)
  then obtain i where i: "findIndex (\<lambda>task. task_id task = taskId) (queue s) = Some i"
    by auto
  from findIndex_Some [OF i] have len: "i < length (queue s)"
    and hit: "task_id (queue s ! i) = taskId"
    and miss: "\<forall>x \<in> set (take i (queue s)). task_id x \<noteq> taskId"
    by auto
  have "queue s = take i (queue s) @ (queue s ! i) # drop (Suc i) (queue s)"
    using len by (simp add: id_take_nth_drop)
  moreover have "cancelTask taskId s =
      (Inr ((queue s ! i)\<lparr>task_status := Cancelled\<rparr>),
       s\<lparr>queue := take i (queue s) @ drop (Suc i) (queue s)\<rparr>)"
    using i by (simp add: cancelTask_def)
  moreover have "taskId \<notin> task_id ` set (take i (queue s))"
    using miss by auto
  ultimately show ?thesis using hit by blast
qed

lemma three_queued_eq:
  "three_queued = \<lparr>queue = [example_task ''t1'' ''medium'' 10, example_task ''t2'' ''urgent'' 11,
                              example_task ''t3'' ''medium'' 12],
                    processing = {||}, completed = Map.empty, failed = Map.empty,
                    isRunning = False\<rparr>"
  by (simp add: three_queued_def addTask_def new_task_queue_def example_task_def Let_def)

lemma three_ranked: "list_all ranked (queue three_queued)"
  by (simp add: three_queued_eq ranked_def priorityOrder_def example_task_def)

lemma sort_three:
  "sort_queue [example_task ''t1'' ''medium'' 10, example_task ''t2'' ''urgent'' 11,
               example_task ''t3'' ''medium'' 12]
   = [example_task ''t2'' ''urgent'' 11, example_task ''t1'' ''medium'' 10,
      example_task ''t3'' ''medium'' 12]"
  by (simp add: sort_queue_def sort_by_def sort_compare_def compare_priority_def
        priorityOrder_def example_task_def)

lemma dispatch_three:
  "dispatch 13 three_queued (sort_queue (queue three_queued)) =
     (Some ((example_task ''t2'' ''urgent'' 11)\<lparr>task_status := Processing, startedAt := Some 13\<rparr>),
      \<lparr>queue = [example_task ''t1'' ''medium'' 10, example_task ''t3'' ''medium'' 12],
       processing = {|''t2''|}, completed = Map.empty, failed = Map.empty,
       isRunning = False\<rparr>)"
proof -
  have "task_id (example_task ''t2'' ''urgent'' 11) = ''t2''" by (simp add: example_task_def)
  then show ?thesis
    by (simp add: dispatch_def three_queued_eq sort_three fcard_fempty)
qed

lemma one_running_eq:
  "one_running = \<lparr>queue = [example_task ''t1'' ''medium'' 10, example_task ''t3'' ''medium'' 12],
       processing = {|''t2''|}, completed = Map.empty, failed = Map.empty,
       isRunning = False\<rparr>"
  by (simp add: one_running_def dispatch_three)

lemma iteration_three:
  "processQueue_iteration 13 three_queued =
     {(Some ((example_task ''t2'' ''urgent'' 11)\<lparr>task_status := Processing, startedAt := Some 13\<rparr>),
       one_running)}"
  using three_ranked
  by (simp add: processQueue_iteration_def sort_results_def dispatch_three one_running_eq)

text \<open>Ranks of tasks whose priority is one of the four.\<close>

lemma priorityOrder_ranks:
  "priorityOrder ''urgent'' = Some 4" "priorityOrder ''high'' = Some 3"
  "priorityOrder ''medium'' = Some 2" "priorityOrder ''low'' = Some 1"
  by (simp_all add: priorityOrder_def)

lemma priorityOrder_inj:
  "priorityOrder p = Some r \<Longrightarrow> priorityOrder p' = Some r \<Longrightarrow> p = p'"
  by (simp add: priorityOrder_def split: if_splits)

lemma rank_inj: "ranked a \<Longrightarrow> ranked b \<Longrightarrow> rank a = rank b \<longleftrightarrow> priority a = priority b"
  by (auto simp add: ranked_def rank_def dest: priorityOrder_inj)

lemma rank_le_4: "rank t \<le> 4"
  by (simp add: rank_def priorityOrder_def)

lemma rank_4: "rank t = 4 \<longleftrightarrow> priority t = ''urgent''"
  by (simp add: rank_def priorityOrder_def)

lemma sort_compare_ranked: "ranked a \<Longrightarrow> ranked b \<Longrightarrow> sort_compare a b = rank b - rank a"
  by (auto simp add: sort_compare_def compare_priority_def ranked_def rank_def)

lemma sort_queue_key:
  assumes "list_all ranked q"
  shows "sort_queue q = sort_key (\<lambda>t. - rank t) q"
  unfolding sort_queue_def
proof (rule sort_by_key)
  show "\<forall>x \<in> set q. \<forall>y \<in> set q. (sort_compare x y \<le> 0) = (- rank x \<le> - rank y)"
    using assms by (auto simp add: list_all_iff sort_compare_ranked)
qed

lemma sort_queue_sorted:
  "list_all ranked q \<Longrightarrow> sorted (map (\<lambda>t. - rank t) (sort_queue q))"
  by (simp only: sort_queue_key sorted_sort_key)

lemma sort_queue_set: "set (sort_queue q) = set q"
  by (simp add: sort_queue_def set_sort_by)

lemma sort_queue_length: "length (sort_queue q) = length q"
  by (simp add: sort_queue_def length_sort_by)

lemma sort_queue_eq_Nil: "sort_queue q = [] \<longleftrightarrow> q = []"
  by (simp add: sort_queue_def sort_by_eq_Nil)

lemma sort_queue_stable:
  assumes "list_all ranked q"
  shows "filter (\<lambda>t. priority t = p) (sort_queue q) = filter (\<lambda>t. priority t = p) q"
proof (cases "\<exists>t \<in> set q. priority t = p")
  case False
  then have "filter (\<lambda>t. priority t = p) xs = []" if "set xs = set q" for xs
    using that by (simp add: filter_empty_conv)
  then show ?thesis by (simp add: sort_queue_set)
next
  case True
  then obtain u where u: "u \<in> set q" and up: "priority u = p" by blast
  have eq: "filter (\<lambda>t. priority t = p) xs = filter (\<lambda>t. - rank t = - rank u) xs"
    if "set xs = set q" for xs
  proof (rule filter_cong [OF refl])
    fix t assume "t \<in> set xs"
    then have "ranked t" and "ranked u" using that u assms by (simp_all add: list_all_iff)
    then show "(priority t = p) = (- rank t = - rank u)" using up by (simp add: rank_inj)
  qed
  have "filter (\<lambda>t. priority t = p) (sort_queue q)
          = filter (\<lambda>t. - rank t = - rank u) (sort_key (\<lambda>t. - rank t) q)"
    using eq [of "sort_queue q"] by (simp add: sort_queue_set sort_queue_key [OF assms])
  also have "\<dots> = filter (\<lambda>t. - rank t = - rank u) q"
    by (rule sort_key_stable)
  also have "\<dots> = filter (\<lambda>t. priority t = p) q"
    using eq [of q] by simp
  finally show ?thesis .
qed

lemma sort_queue_first:
  assumes "q \<noteq> []" and "list_all ranked q"
  shows "\<exists>task rest pre post. sort_queue q = task # rest \<and> q = pre @ task # post
           \<and> (\<forall>t \<in> set pre. rank t < rank task) \<and> (\<forall>t \<in> set post. rank t \<le> rank task)"
  unfolding sort_queue_def
proof (rule sort_by_first [OF assms(1)])
  show "\<forall>x \<in> set q. \<forall>y \<in> set q. (sort_compare x y \<le> 0) = (rank y \<le> rank x)"
    using assms(2) by (auto simp add: list_all_iff sort_compare_ranked)
qed

text \<open>The pass from the sorted queue on.\<close>

lemma dispatch_head:
  assumes "q = task # rest" and "fcard (processing s) < 10"
  shows "dispatch now s q =
           (Some (task\<lparr>task_status := Processing, startedAt := Some now\<rparr>),
            s\<lparr>queue := rest, processing := finsert (task_id task) (processing s)\<rparr>)"
  using assms by (simp add: dispatch_def)

lemma dispatch_idle:
  assumes "\<not> (q \<noteq> [] \<and> fcard (processing s) < 10)"
  shows "dispatch now s q = (None, s\<lparr>queue := q\<rparr>)"
  using assms by (auto simp add: dispatch_def)

lemma dispatch_bound:
  assumes "fcard (processing s) \<le> 10"
  shows "fcard (processing (snd (dispatch now s q))) \<le> 10"
proof (cases "q \<noteq> [] \<and> fcard (processing s) < 10")
  case True
  then obtain task rest where "q = task # rest" by (cases q) auto
  then show ?thesis using True by (simp add: dispatch_head fcard_finsert_if)
next
  case False
  then show ?thesis using assms by (simp add: dispatch_idle)
qed

lemma dispatch_length:
  "length (queue (snd (dispatch now s q))) + (if fst (dispatch now s q) = None then 0 else 1)
     = length q"
proof (cases "q \<noteq> [] \<and> fcard (processing s) < 10")
  case True
  then obtain task rest where "q = task # rest" by (cases q) auto
  then show ?thesis using True by (simp add: dispatch_head)
next
  case False
  then show ?thesis by (simp add: dispatch_idle)
qed

lemma sort_results_length: "q' \<in> sort_results q \<Longrightarrow> length q' = length q"
  by (auto simp add: sort_results_def sort_queue_length dest: mset_eq_length split: if_splits)

lemma iteration_ranked:
  "list_all ranked (queue s) \<Longrightarrow>
     processQueue_iteration now s = {dispatch now s (sort_queue (queue s))}"
  by (simp add: processQueue_iteration_def sort_results_def)

lemma iteration_unranked:
  "\<not> list_all ranked (queue s) \<Longrightarrow>
     processQueue_iteration now s = dispatch now s ` {q'. mset q' = mset (queue s)}"
  by (simp add: processQueue_iteration_def sort_results_def)

lemma iteration_bound:
  assumes "out \<in> processQueue_iteration now s" and "fcard (processing s) \<le> 10"
  shows "fcard (processing (snd out)) \<le> 10"
  using assms dispatch_bound by (auto simp add: processQueue_iteration_def)

lemma iteration_length:
  assumes "out \<in> processQueue_iteration now s"
  shows "length (queue (snd out)) + (if fst out = None then 0 else 1) = length (queue s)"
proof -
  from assms obtain q where q: "q \<in> sort_results (queue s)" and out: "out = dispatch now s q"
    by (auto simp add: processQueue_iteration_def)
  show ?thesis using dispatch_length [of now s q] sort_results_length [OF q] out by simp
qed

lemma step_processing_bound:
  assumes "s' \<in> queue_step s e" and "fcard (processing s) \<le> 10"
  shows "fcard (processing s') \<le> 10"
proof (cases e)
  case (Iteration now)
  then obtain out where "out \<in> processQueue_iteration now s" and "s' = snd out"
    using assms(1) by auto
  then show ?thesis using iteration_bound [OF _ assms(2)] by blast
next
  case (TaskEnded now task)
  then show ?thesis
    using assms fcard_fminus1_le [of "processing s" "task_id task"]
    by (simp add: processTask_completed_def)
next
  case (TaskThrew now task message)
  then show ?thesis
    using assms fcard_fminus1_le [of "processing s" "task_id task"]
    by (simp add: processTask_failed_def)
next
  case (CatchHandler task message)
  then show ?thesis
    using assms fcard_fminus1_le [of "processing s" "task_id task"]
    by (simp add: processQueue_catch_def)
next
  case (CancelTask taskId)
  then show ?thesis using assms
    by (simp add: cancelTask_def split: option.splits)
next
  case (RetryTask taskId)
  then show ?thesis using assms
    by (simp add: retryTask_def Let_def split: option.splits)
qed (use assms in \<open>simp_all add: addTask_def Let_def\<close>)

lemma reachable_bound: "reachable s \<Longrightarrow> fcard (processing s) \<le> 10"
proof (induction rule: reachable.induct)
  case new_queue
  show ?case by (simp add: new_task_queue_def fcard_fempty)
next
  case (step s s' e)
  from step.hyps(2) step.IH show ?case by (rule step_processing_bound)
qed

lemma one_failed_eq:
  "one_failed = \<lparr>queue = [example_task ''t1'' ''medium'' 10, example_task ''t3'' ''medium'' 12],
       processing = {||}, completed = Map.empty,
       failed = [''t2'' \<mapsto> ((example_task ''t2'' ''urgent'' 11)\<lparr>task_status := Failed,
                    error := Some ''boom'', startedAt := Some 13, failedAt := Some 14\<rparr>, ''boom'')],
       isRunning = False\<rparr>"
  by (simp add: one_failed_def one_running_eq processTask_failed_def example_task_def)

text \<open>
  C7, as the source has it. A pass of the dispatch loop sorts the queue and then, if the
  queue is not empty and fewer than 10 tasks are running, takes the head of the queue,
  one task and no more, marks it as processing and adds its id to the running set;
  otherwise nothing is started. The ranks are urgent 4, high 3, medium 2, low 1. When
  every queued task has one of these four priorities, the sort puts the queue in order of
  rank, largest first, tasks of one priority keeping their order; the task started has
  the largest rank in the queue and is the first of that rank; so when an urgent task is
  queued and there is capacity, the task started is urgent, whatever was queued before.
  When some queued task has another priority, the compare function yields \<open>NaN\<close> and the
  queue is left in an order the language does not fix. In every case at most one task
  leaves the queue in a pass, and the running set never has more than 10 members, in any
  state a new queue can get into.
\<close>

theorem processQueue_iteration_dispatches_one:
  "priorityOrder ''urgent'' = Some 4 \<and> priorityOrder ''high'' = Some 3
   \<and> priorityOrder ''medium'' = Some 2 \<and> priorityOrder ''low'' = Some 1
   \<and> (list_all ranked (queue s) \<longrightarrow>
        processQueue_iteration now s = {dispatch now s (sort_queue (queue s))}
        \<and> sorted (map (\<lambda>t. - rank t) (sort_queue (queue s)))
        \<and> (\<forall>p. filter (\<lambda>t. priority t = p) (sort_queue (queue s))
                 = filter (\<lambda>t. priority t = p) (queue s))
        \<and> (queue s \<noteq> [] \<and> fcard (processing s) < 10 \<longrightarrow>
             (\<exists>task rest pre post. sort_queue (queue s) = task # rest
                \<and> dispatch now s (sort_queue (queue s)) =
                    (Some (task\<lparr>task_status := Processing, startedAt := Some now\<rparr>),
                     s\<lparr>queue := rest, processing := finsert (task_id task) (processing s)\<rparr>)
                \<and> queue s = pre @ task # post
                \<and> (\<forall>t \<in> set pre. rank t < rank task)
                \<and> (\<forall>t \<in> set post. rank t \<le> rank task)))
        \<and> (\<not> (queue s \<noteq> [] \<and> fcard (processing s) < 10) \<longrightarrow>
             dispatch now s (sort_queue (queue s)) = (None, s\<lparr>queue := sort_queue (queue s)\<rparr>))
        \<and> ((\<exists>u \<in> set (queue s). priority u = ''urgent'') \<and> fcard (processing s) < 10 \<longrightarrow>
             (\<exists>task. fst (dispatch now s (sort_queue (queue s))) = Some task
                \<and> priority task = ''urgent'')))
   \<and> (\<not> list_all ranked (queue s) \<longrightarrow>
        processQueue_iteration now s = dispatch now s ` {q'. mset q' = mset (queue s)})
   \<and> (\<forall>out \<in> processQueue_iteration now s.
        length (queue (snd out)) + (if fst out = None then 0 else 1) = length (queue s)
        \<and> (fcard (processing s) \<le> 10 \<longrightarrow> fcard (processing (snd out)) \<le> 10))
   \<and> (reachable s' \<longrightarrow> fcard (processing s') \<le> 10)"
proof -
  have first: "\<exists>task rest pre post. sort_queue (queue s) = task # rest
                \<and> dispatch now s (sort_queue (queue s)) =
                    (Some (task\<lparr>task_status := Processing, startedAt := Some now\<rparr>),
                     s\<lparr>queue := rest, processing := finsert (task_id task) (processing s)\<rparr>)
                \<and> queue s = pre @ task # post
                \<and> (\<forall>t \<in> set pre. rank t < rank task)
                \<and> (\<forall>t \<in> set post. rank t \<le> rank task)"
    if r: "list_all ranked (queue s)" and ne: "queue s \<noteq> []" and cap: "fcard (processing s) < 10"
  proof -
    from sort_queue_first [OF ne r] obtain task rest pre post where
      sq: "sort_queue (queue s) = task # rest" and q: "queue s = pre @ task # post"
      and pre: "\<forall>t \<in> set pre. rank t < rank task"
      and post: "\<forall>t \<in> set post. rank t \<le> rank task"
      by blast
    from dispatch_head [OF sq cap, of now] sq q pre post show ?thesis by blast
  qed
  have urgent: "\<exists>task. fst (dispatch now s (sort_queue (queue s))) = Some task
                  \<and> priority task = ''urgent''"
    if r: "list_all ranked (queue s)" and u: "\<exists>u \<in> set (queue s). priority u = ''urgent''"
      and cap: "fcard (processing s) < 10"
  proof -
    from u obtain u where uq: "u \<in> set (queue s)" and up: "priority u = ''urgent''" by blast
    then have ne: "queue s \<noteq> []" by auto
    from first [OF r ne cap] obtain task rest pre post where
      d: "dispatch now s (sort_queue (queue s)) =
                    (Some (task\<lparr>task_status := Processing, startedAt := Some now\<rparr>),
                     s\<lparr>queue := rest, processing := finsert (task_id task) (processing s)\<rparr>)"
      and q: "queue s = pre @ task # post"
      and pre: "\<forall>t \<in> set pre. rank t < rank task"
      and post: "\<forall>t \<in> set post. rank t \<le> rank task"
      by blast
    have "rank u \<le> rank task"
      using uq q pre post by (auto simp add: less_imp_le)
    moreover have "rank u = 4" using up by (simp add: rank_4)
    ultimately have "rank task = 4" using rank_le_4 [of task] by simp
    then have "priority task = ''urgent''" by (simp only: rank_4)
    with d show ?thesis by simp
  qed
  have idle: "dispatch now s (sort_queue (queue s)) = (None, s\<lparr>queue := sort_queue (queue s)\<rparr>)"
    if "\<not> (queue s \<noteq> [] \<and> fcard (processing s) < 10)"
    using that by (intro dispatch_idle) (simp add: sort_queue_eq_Nil)
  have outs: "\<forall>out \<in> processQueue_iteration now s.
        length (queue (snd out)) + (if fst out = None then 0 else 1) = length (queue s)
        \<and> (fcard (processing s) \<le> 10 \<longrightarrow> fcard (processing (snd out)) \<le> 10)"
    using iteration_length [of _ now s] iteration_bound [of _ now s] by blast
  have ranked_case: "processQueue_iteration now s = {dispatch now s (sort_queue (queue s))}
        \<and> sorted (map (\<lambda>t. - rank t) (sort_queue (queue s)))
        \<and> (\<forall>p. filter (\<lambda>t. priority t = p) (sort_queue (queue s))
                 = filter (\<lambda>t. priority t = p) (queue s))"
    if r: "list_all ranked (queue s)"
    using iteration_ranked [OF r, of now] sort_queue_sorted [OF r] sort_queue_stable [OF r]
    by blast
  show ?thesis
    using priorityOrder_ranks ranked_case first urgent idle outs
      iteration_unranked [of s now] reachable_bound [of s']
    by blast
qed

theorem processQueue_iteration_dispatches_one_witness:
  "priority (example_task ''t1'' ''medium'' 10) = ''medium''
   \<and> queue three_queued = [example_task ''t1'' ''medium'' 10, example_task ''t2'' ''urgent'' 11,
                            example_task ''t3'' ''medium'' 12]
   \<and> list_all ranked (queue three_queued)
   \<and> processQueue_iteration 13 three_queued =
        {(Some ((example_task ''t2'' ''urgent'' 11)\<lparr>task_status := Processing,
                   startedAt := Some 13\<rparr>),
          one_running)}
   \<and> queue one_running = [example_task ''t1'' ''medium'' 10, example_task ''t3'' ''medium'' 12]
   \<and> processing one_running = {|''t2''|}
   \<and> reachable one_running
   \<and> processQueue_iteration 13 new_task_queue = {(None, new_task_queue)}"
proof -
  note main = processQueue_iteration_dispatches_one
  have "example_task ''t2'' ''urgent'' 11 \<in> set (queue three_queued)"
    and "priority (example_task ''t2'' ''urgent'' 11) = ''urgent''"
    and "fcard (processing three_queued) < 10"
    by (simp_all add: three_queued_eq example_task_def fcard_fempty)
  then have urgent: "\<exists>task. fst (dispatch 13 three_queued (sort_queue (queue three_queued)))
                        = Some task \<and> priority task = ''urgent''"
    using main [of three_queued 13 new_task_queue] three_ranked by blast
  have "list_all ranked (queue new_task_queue)"
    and "\<not> (queue new_task_queue \<noteq> [] \<and> fcard (processing new_task_queue) < 10)"
    by (simp_all add: new_task_queue_def)
  then have "processQueue_iteration 13 new_task_queue
               = {dispatch 13 new_task_queue (sort_queue (queue new_task_queue))}"
    and "dispatch 13 new_task_queue (sort_queue (queue new_task_queue))
               = (None, new_task_queue\<lparr>queue := sort_queue (queue new_task_queue)\<rparr>)"
    using main [of new_task_queue 13 new_task_queue] by blast+
  then have idle: "processQueue_iteration 13 new_task_queue = {(None, new_task_queue)}"
    by (simp add: new_task_queue_def sort_queue_def sort_by_def)
  have r1: "reachable (snd (addTask 10 ''t1'' \<lparr>td_type = ''build'', td_priority = Some ''medium''\<rparr>
              new_task_queue))"
    by (rule reachable.step [OF reachable.new_queue, where e = "AddTask 10 ''t1'' _"]) simp
  have r2: "reachable (snd (addTask 11 ''t2'' \<lparr>td_type = ''build'', td_priority = Some ''urgent''\<rparr>
              (snd (addTask 10 ''t1'' \<lparr>td_type = ''build'', td_priority = Some ''medium''\<rparr>
              new_task_queue))))"
    by (rule reachable.step [OF r1, where e = "AddTask 11 ''t2'' _"]) simp
  have r3: "reachable three_queued"
    unfolding three_queued_def
    by (rule reachable.step [OF r2, where e = "AddTask 12 ''t3'' _"]) simp
  have "one_running \<in> queue_step three_queued (Iteration 13)"
    by (simp add: iteration_three)
  with r3 have reach: "reachable one_running" by (rule reachable.step)
  have "priority (example_task ''t1'' ''medium'' 10) = ''medium''"
    by (simp add: example_task_def)
  moreover have "queue three_queued = [example_task ''t1'' ''medium'' 10,
      example_task ''t2'' ''urgent'' 11, example_task ''t3'' ''medium'' 12]"
    by (simp add: three_queued_eq)
  moreover have "queue one_running
      = [example_task ''t1'' ''medium'' 10, example_task ''t3'' ''medium'' 12]"
    and "processing one_running = {|''t2''|}"
    by (simp_all add: one_running_eq)
  ultimately show ?thesis using urgent idle reach three_ranked by (simp add: iteration_three)
qed

text \<open>
  C7, as stated, fails: the pass does not go on while there is capacity and work. With
  three tasks queued and none running, one pass leaves two tasks queued and one
  running.
\<close>

theorem processQueue_iteration_leaves_work:
  "processQueue_iteration 13 three_queued =
     {(Some ((example_task ''t2'' ''urgent'' 11)\<lparr>task_status := Processing,
                startedAt := Some 13\<rparr>),
       one_running)}
   \<and> queue one_running \<noteq> []
   \<and> length (queue one_running) = 2
   \<and> fcard (processing one_running) = 1
   \<and> fcard (processing one_running) < 10"
  by (simp add: iteration_three) (simp add: one_running_eq fcard_finsert_if fcard_fempty)

text \<open>
  C8. Cancelling a task whose id is in the queue returns it with status \<open>cancelled\<close> and
  takes it (the first task with that id) out of the queue; the tasks before and after it
  stay, in order, and the running, completed and failed collections are as before.
  Cancelling a task that is not in the queue and is running fails with
  \<open>CancellationRejected\<close> and leaves the state as it was.
\<close>

theorem cancelTask_outcomes:
  "(taskId \<in> task_id ` set (queue s) \<longrightarrow>
      (\<exists>pre t post. queue s = pre @ t # post \<and> task_id t = taskId
         \<and> taskId \<notin> task_id ` set pre
         \<and> fst (cancelTask taskId s) = Inr (t\<lparr>task_status := Cancelled\<rparr>)
         \<and> queue (snd (cancelTask taskId s)) = pre @ post
         \<and> processing (snd (cancelTask taskId s)) = processing s
         \<and> completed (snd (cancelTask taskId s)) = completed s
         \<and> failed (snd (cancelTask taskId s)) = failed s))
   \<and> (taskId \<notin> task_id ` set (queue s) \<and> taskId |\<in>| processing s \<longrightarrow>
        cancelTask taskId s = (Inl CancellationRejected, s))"
proof -
  have "taskId \<notin> task_id ` set (queue s) \<and> taskId |\<in>| processing s \<longrightarrow>
        cancelTask taskId s = (Inl CancellationRejected, s)"
  proof
    assume a: "taskId \<notin> task_id ` set (queue s) \<and> taskId |\<in>| processing s"
    then have "findIndex (\<lambda>task. task_id task = taskId) (queue s) = None"
      by (auto simp add: findIndex_None)
    with a show "cancelTask taskId s = (Inl CancellationRejected, s)"
      by (simp add: cancelTask_def)
  qed
  moreover have "taskId \<in> task_id ` set (queue s) \<longrightarrow>
      (\<exists>pre t post. queue s = pre @ t # post \<and> task_id t = taskId
         \<and> taskId \<notin> task_id ` set pre
         \<and> fst (cancelTask taskId s) = Inr (t\<lparr>task_status := Cancelled\<rparr>)
         \<and> queue (snd (cancelTask taskId s)) = pre @ post
         \<and> processing (snd (cancelTask taskId s)) = processing s
         \<and> completed (snd (cancelTask taskId s)) = completed s
         \<and> failed (snd (cancelTask taskId s)) = failed s)"
  proof
    assume "taskId \<in> task_id ` set (queue s)"
    from cancelTask_queued [OF this] obtain pre t post where
      "queue s = pre @ t # post" "task_id t = taskId" "taskId \<notin> task_id ` set pre"
      "cancelTask taskId s = (Inr (t\<lparr>task_status := Cancelled\<rparr>), s\<lparr>queue := pre @ post\<rparr>)"
      by blast
    then show "\<exists>pre t post. queue s = pre @ t # post \<and> task_id t = taskId
         \<and> taskId \<notin> task_id ` set pre
         \<and> fst (cancelTask taskId s) = Inr (t\<lparr>task_status := Cancelled\<rparr>)
         \<and> queue (snd (cancelTask taskId s)) = pre @ post
         \<and> processing (snd (cancelTask taskId s)) = processing s
         \<and> completed (snd (cancelTask taskId s)) = completed s
         \<and> failed (snd (cancelTask taskId s)) = failed s"
      by (intro exI [of _ pre] exI [of _ t] exI [of _ post]) simp
  qed
  ultimately show ?thesis by blast
qed

theorem cancelTask_outcomes_witness:
  "queue one_running = [example_task ''t1'' ''medium'' 10, example_task ''t3'' ''medium'' 12]
   \<and> processing one_running = {|''t2''|}
   \<and> fst (cancelTask ''t3'' one_running) =
        Inr ((example_task ''t3'' ''medium'' 12)\<lparr>task_status := Cancelled\<rparr>)
   \<and> queue (snd (cancelTask ''t3'' one_running)) = [example_task ''t1'' ''medium'' 10]
   \<and> processing (snd (cancelTask ''t3'' one_running)) = {|''t2''|}
   \<and> cancelTask ''t2'' one_running = (Inl CancellationRejected, one_running)"
  using cancelTask_outcomes [of "''t3''" one_running] cancelTask_outcomes [of "''t2''" one_running]
  by (simp add: one_running_eq cancelTask_def example_task_def)

text \<open>
  C9. Retrying a task id that has an entry in the failed map returns the entry's task
  with status \<open>queued\<close>, \<open>retryCount\<close> one more (an absent count read as 0), \<open>error\<close>
  cleared and priority and id as they were, puts it at the tail of the queue and deletes
  the entry; the running and completed collections are as before. Retrying an id with no
  entry in the failed map fails with \<open>NotFound\<close> and leaves the state as it was.
\<close>

theorem retryTask_outcomes:
  "(\<forall>t message. failed s taskId = Some (t, message) \<longrightarrow>
      (\<exists>task. fst (retryTask taskId s) = Inr task
         \<and> task_status task = Queued
         \<and> retryCount task = Some ((case retryCount t of None \<Rightarrow> 0 | Some n \<Rightarrow> n) + 1)
         \<and> error task = None
         \<and> priority task = priority t
         \<and> task_id task = task_id t
         \<and> queue (snd (retryTask taskId s)) = queue s @ [task]
         \<and> failed (snd (retryTask taskId s)) = (failed s)(taskId := None)
         \<and> processing (snd (retryTask taskId s)) = processing s
         \<and> completed (snd (retryTask taskId s)) = completed s))
   \<and> (failed s taskId = None \<longrightarrow> retryTask taskId s = (Inl NotFound, s))"
  by (simp add: retryTask_def Let_def)

theorem retryTask_outcomes_witness:
  "fst (retryTask ''t2'' one_failed) =
      Inr ((example_task ''t2'' ''urgent'' 11)\<lparr>retryCount := Some 1, startedAt := Some 13\<rparr>)
   \<and> queue (snd (retryTask ''t2'' one_failed)) =
        [example_task ''t1'' ''medium'' 10, example_task ''t3'' ''medium'' 12,
         (example_task ''t2'' ''urgent'' 11)\<lparr>retryCount := Some 1, startedAt := Some 13\<rparr>]
   \<and> failed (snd (retryTask ''t2'' one_failed)) ''t2'' = None
   \<and> retryTask ''t1'' one_failed = (Inl NotFound, one_failed)
   \<and> fst (retryTask ''t2'' (processTask_failed 16
        ((example_task ''t2'' ''urgent'' 11)\<lparr>retryCount := Some 1, startedAt := Some 15\<rparr>) ''again''
        (snd (retryTask ''t2'' one_failed)))) =
      Inr ((example_task ''t2'' ''urgent'' 11)\<lparr>retryCount := Some 2, startedAt := Some 15\<rparr>)"
  using retryTask_outcomes [of one_failed "''t2''"] retryTask_outcomes [of one_failed "''t1''"]
  by (simp add: one_failed_eq retryTask_def processTask_failed_def example_task_def Let_def)

end
